(* ===== verification/Prelude.thy ===== *)
theory Prelude
  imports Main
begin

text \<open>
  Shared vocabulary of the development: fact collections, the type synonyms for Go values,
  reachability in a transition system with its invariant rule as a locale, and the generic list
  lemmas that several components use.
\<close>

section \<open>Fact collections\<close>

text \<open>
  \<open>verdict_simps\<close> collects the rules that decide policy verdicts, \<open>net_simps\<close> the
  rules that evaluate address arithmetic, \<open>breaker_simps\<close> the rules that evaluate steps of
  the circuit breaker.
\<close>

named_theorems verdict_simps
named_theorems net_simps
named_theorems breaker_simps

section \<open>Names for Go values\<close>

text \<open>
  A \<open>time.Time\<close> is its distance from a fixed instant in nanoseconds and a
  \<open>time.Duration\<close> a number of nanoseconds. Where the width of the integer matters (retry
  back-off) a component uses 64-bit words instead.
\<close>

type_synonym instant = int
type_synonym duration = int

definition nanosecond :: duration where "nanosecond = 1"
definition second :: duration where "second = 1000000000 * nanosecond"
definition minute :: duration where "minute = 60 * second"

section \<open>Transition systems\<close>

text \<open>States reachable from an initial state of a system given by its one-step relation.\<close>

inductive reachable :: "('s \<Rightarrow> bool) \<Rightarrow> ('s \<Rightarrow> 's \<Rightarrow> bool) \<Rightarrow> 's \<Rightarrow> bool"
  for start :: "'s \<Rightarrow> bool" and trans :: "'s \<Rightarrow> 's \<Rightarrow> bool" where
  reach_start: "start s \<Longrightarrow> reachable start trans s"
| reach_step: "reachable start trans s \<Longrightarrow> trans s t \<Longrightarrow> reachable start trans t"

text \<open>
  The contract of an invariant: it holds initially and every step keeps it. Components with a
  state machine interpret this locale and obtain the invariant in every reachable state.
\<close>

locale invariant_system =
  fixes start :: "'s \<Rightarrow> bool"
    and trans :: "'s \<Rightarrow> 's \<Rightarrow> bool"
    and inv :: "'s \<Rightarrow> bool"
  assumes inv_start: "start s \<Longrightarrow> inv s"
    and inv_step: "inv s \<Longrightarrow> trans s t \<Longrightarrow> inv t"
begin

lemma inv_reachable: "reachable start trans s \<Longrightarrow> inv s"
  by (induction rule: reachable.induct) (auto intro: inv_start inv_step)

end

section \<open>Lists\<close>

lemma takeWhile_all: "\<forall>x\<in>set xs. P x \<Longrightarrow> takeWhile P xs = xs"
  by (induction xs) auto

lemma dropWhile_all: "\<forall>x\<in>set xs. P x \<Longrightarrow> dropWhile P xs = []"
  by (induction xs) auto

lemma list_ex_iff_Bex: "list_ex P xs \<longleftrightarrow> (\<exists>x\<in>set xs. P x)"
  by (induction xs) auto

lemma length_eq_4_conv: "length xs = 4 \<longleftrightarrow> (\<exists>a b c d. xs = [a, b, c, d])"
  by (auto simp: numeral_eq_Suc length_Suc_conv)

lemma take_eq_replicate_nth:
  "take n xs = replicate n a \<Longrightarrow> i < n \<Longrightarrow> i < length xs \<Longrightarrow> xs ! i = a"
  by (metis nth_replicate nth_take)

end
