(* ===== verification/GoErrors.thy ===== *)
theory GoErrors
  imports Prelude
begin

text \<open>
  Go error values. An error is a node with the dynamic type it was built with, its text and, when
  it wraps another error (\<open>fmt.Errorf\<close> with \<open>%w\<close>, \<open>*net.OpError\<close>), the error
  its \<open>Unwrap\<close> returns. \<open>errors.Is\<close> and \<open>errors.As\<close> walk that chain. A text holds
  the constant words of the message; the values formatted into it are left out, because no code
  under src/ reads them.
\<close>

section \<open>The error tree\<close>

datatype sentinel =
    ErrBlockedByPolicy
  | ErrCircuitBreakerOpen
  | ErrCacheSizeLimitExceeded
  | ErrResponseBodyTooLarge
  | ErrDecompressionBombDetected
  | ContextCanceled
  | ContextDeadlineExceeded
  | EOF
  | ErrNotExist

text \<open>
  The dynamic types the code distinguishes: a package-level error value, a plain text
  error, \<open>*net.DNSError\<close> with \<open>IsNotFound\<close> and \<open>IsTimeout\<close>,
  \<open>*net.OpError\<close>, \<open>*os.SyscallError\<close>, \<open>syscall.Errno\<close>, and any other type that implements
  \<open>net.Error\<close>, with the value of its \<open>Timeout\<close> method. An error type whose own \<open>Is\<close>
  method makes it match a sentinel, as those of \<open>net\<close> for cancelled and expired contexts, is
  represented by that sentinel.
\<close>

datatype err_kind =
    KSentinel sentinel
  | KText
  | KDNS bool bool
  | KOp
  | KSyscall
  | KErrno nat
  | KNet bool

datatype go_err = GoErr (kind: err_kind) (msg: string) (wrapped: "go_err option")

definition err_value :: "sentinel \<Rightarrow> go_err" where
  "err_value s = GoErr (KSentinel s) [] None"

definition errorf :: "string \<Rightarrow> go_err" where
  "errorf m = GoErr KText m None"

definition errorf_w :: "string \<Rightarrow> go_err \<Rightarrow> go_err" where
  "errorf_w m e = GoErr KText m (Some e)"

section \<open>Walking the chain\<close>

fun err_chain :: "go_err \<Rightarrow> go_err list" where
  "err_chain (GoErr k m None) = [GoErr k m None]"
| "err_chain (GoErr k m (Some e)) = GoErr k m (Some e) # err_chain e"

definition errors_is :: "go_err \<Rightarrow> sentinel \<Rightarrow> bool" where
  "errors_is e s \<longleftrightarrow> list_ex (\<lambda>x. kind x = KSentinel s) (err_chain e)"

text \<open>\<open>errors.As\<close> for \<open>*net.DNSError\<close>: the first such error of the chain.\<close>

definition as_dns_error :: "go_err \<Rightarrow> (bool \<times> bool) option" where
  "as_dns_error e =
     (case List.find (\<lambda>x. case kind x of KDNS _ _ \<Rightarrow> True | _ \<Rightarrow> False) (err_chain e) of
        Some x \<Rightarrow> (case kind x of KDNS nf to \<Rightarrow> Some (nf, to) | _ \<Rightarrow> None)
      | None \<Rightarrow> None)"

definition blocked :: "go_err option \<Rightarrow> bool" where
  "blocked r \<longleftrightarrow> (case r of None \<Rightarrow> False | Some e \<Rightarrow> errors_is e ErrBlockedByPolicy)"

lemma errors_is_value [simp]: "errors_is (err_value s) t \<longleftrightarrow> s = t"
  by (simp add: errors_is_def err_value_def)

lemma errors_is_errorf [simp]: "\<not> errors_is (errorf m) t"
  by (simp add: errors_is_def errorf_def)

lemma errors_is_errorf_w [simp]: "errors_is (errorf_w m e) t \<longleftrightarrow> errors_is e t"
  by (simp add: errors_is_def errorf_w_def)

lemma blocked_simps [simp]:
  "\<not> blocked None"
  "blocked (Some e) \<longleftrightarrow> errors_is e ErrBlockedByPolicy"
  by (simp_all add: blocked_def)

lemma as_dns_error_errorf_w [simp]: "as_dns_error (errorf_w m e) = as_dns_error e"
  by (simp add: as_dns_error_def errorf_w_def)

end
