(* ===== verification/GoUrl.thy ===== *)
theory GoUrl
  imports GoStrings
begin

text \<open>
  The parts of a parsed \<open>net/url.URL\<close> the code reads, with \<open>Hostname\<close> and \<open>Port\<close>.
  \<open>url.Parse\<close> and \<open>URL.String\<close> themselves are parameters of the definitions that use
  them: what they accept has changed between Go releases, and no property below depends on it.
\<close>

record url =
  url_scheme :: string
  url_host :: string
  url_path :: string

type_synonym url_parser = "string \<Rightarrow> go_err + url"

definition valid_optional_port :: "string \<Rightarrow> bool" where
  "valid_optional_port p \<longleftrightarrow>
     (case p of [] \<Rightarrow> True | c # cs \<Rightarrow> c = CHR '':'' \<and> list_all is_digit cs)"

definition strip_brackets :: "string \<Rightarrow> string" where
  "strip_brackets h =
     (if h \<noteq> [] \<and> length h \<ge> 2 \<and> hd h = CHR ''['' \<and> last h = CHR '']''
      then butlast (tl h) else h)"

definition url_split_host_port :: "string \<Rightarrow> string \<times> string" where
  "url_split_host_port hp =
     (case cut_last (CHR '':'') hp of
        Some (h, p) \<Rightarrow>
          if valid_optional_port (CHR '':'' # p) then (strip_brackets h, p)
          else (strip_brackets hp, [])
      | None \<Rightarrow> (strip_brackets hp, []))"

definition hostname :: "url \<Rightarrow> string" where
  "hostname u = fst (url_split_host_port (url_host u))"

definition port :: "url \<Rightarrow> string" where
  "port u = snd (url_split_host_port (url_host u))"

end
