(* ===== verification/HttpTransport.thy ===== *)
theory HttpTransport
  imports GoUrl
begin

text \<open>
  What the transport layers of the client share: requests and responses as a round tripper sees
  them, headers, the metrics interface (\<open>metrics.go\<close>) and the type of a round tripper, which
  acts on a world \<open>'w\<close>.
\<close>

section \<open>Headers\<close>

text \<open>
  A header maps canonical names to their values. The code only uses names in canonical form, for
  which \<open>Get\<close>, \<open>Set\<close> and \<open>Del\<close> are plain operations on the map.
\<close>

type_synonym header = "string \<rightharpoonup> string list"

definition header_get :: "header \<Rightarrow> string \<Rightarrow> string" where
  "header_get h k = (case h k of Some (v # vs) \<Rightarrow> v | _ \<Rightarrow> [])"

definition header_set :: "string \<Rightarrow> string \<Rightarrow> header \<Rightarrow> header" where
  "header_set k v h = h(k \<mapsto> [v])"

definition header_del :: "string \<Rightarrow> header \<Rightarrow> header" where
  "header_del k h = h(k := None)"

lemma header_get_set [simp]: "header_get (header_set k v h) j = (if j = k then v else header_get h j)"
  by (simp add: header_get_def header_set_def)

lemma header_get_del [simp]: "header_get (header_del k h) j = (if j = k then [] else header_get h j)"
  by (simp add: header_get_def header_del_def)

text \<open>
  \<open>strings.EqualFold\<close> against an ASCII text without the letters k and s, which alone fold to
  characters outside ASCII.
\<close>

definition equal_fold :: "string \<Rightarrow> string \<Rightarrow> bool" where
  "equal_fold s t \<longleftrightarrow> to_lower s = to_lower t"

section \<open>Requests, responses and round trippers\<close>

text \<open>\<open>has_body\<close> is whether \<open>Body\<close> is not nil. A \<open>ContentLength\<close> of -1 means unknown.\<close>

record http_request =
  rq_method :: string
  rq_url :: url
  rq_header :: header
  has_body :: bool
  rq_content_length :: int

text \<open>
  The body of a response is the one the network gave, numbered, or a \<open>gzipReadCloser\<close> with
  its limit on top of another.
\<close>

datatype http_body = NetBody nat | Gunzipped http_body int

record http_response =
  rs_status :: int
  rs_header :: header
  rs_content_length :: int
  rs_body :: http_body
  uncompressed :: bool

text \<open>
  A call returns a response and an error, either of which may be nil, or panics.
\<close>

datatype rt_outcome =
    Panics
  | Answers (rt_response: "http_response option") (rt_error: "go_err option")

type_synonym 'w http_tripper = "http_request \<Rightarrow> 'w \<Rightarrow> rt_outcome \<times> 'w"

section \<open>Metrics\<close>

text \<open>
  A call of the \<open>Metrics\<close> interface with its arguments, the context apart: method, host and
  path template are the labels. Sizes are kept as integers, before their conversion to
  \<open>float64\<close>.
\<close>

type_synonym labels = "string \<times> string \<times> string"

datatype metric_event =
    RecordRequestDuration labels int duration
  | IncrementRequestsTotal labels int
  | IncrementErrorsTotal labels string
  | IncrementRetries labels
  | IncrementCacheHits
  | IncrementCacheMisses
  | SetCacheSizeBytes int
  | SetCircuitBreakerState string int
  | IncrementConcurrentRequests
  | DecrementConcurrentRequests
  | RecordRequestSize labels int
  | RecordResponseSize labels int

type_synonym 'w metrics = "metric_event \<Rightarrow> 'w \<Rightarrow> 'w"

definition noop_metrics :: "'w metrics" where
  "noop_metrics e w = w"

text \<open>The default for a nil \<open>Metrics\<close>, as every constructor of the package resolves it.\<close>

definition metrics_or_noop :: "'w metrics option \<Rightarrow> 'w metrics" where
  "metrics_or_noop m = (case m of None \<Rightarrow> noop_metrics | Some f \<Rightarrow> f)"

text \<open>A metrics backend that keeps what it is told, in order, beside another world.\<close>

definition log_metrics :: "('w \<times> metric_event list) metrics" where
  "log_metrics e w = (fst w, snd w @ [e])"

text \<open>A round tripper that does not touch the log.\<close>

definition unlogged :: "'w http_tripper \<Rightarrow> ('w \<times> metric_event list) http_tripper" where
  "unlogged rt req w = (case rt req (fst w) of (r, v) \<Rightarrow> (r, v, snd w))"

fun event_labels :: "metric_event \<Rightarrow> labels option" where
  "event_labels (RecordRequestDuration l s d) = Some l"
| "event_labels (IncrementRequestsTotal l s) = Some l"
| "event_labels (IncrementErrorsTotal l t) = Some l"
| "event_labels (IncrementRetries l) = Some l"
| "event_labels (RecordRequestSize l n) = Some l"
| "event_labels (RecordResponseSize l n) = Some l"
| "event_labels _ = None"

text \<open>Requests sent one after the other, with the outcomes.\<close>

fun send_all :: "'w http_tripper \<Rightarrow> http_request list \<Rightarrow> 'w \<Rightarrow> rt_outcome list \<times> 'w" where
  "send_all rt [] w = ([], w)"
| "send_all rt (q # qs) w =
     (case rt q w of (r, w') \<Rightarrow> (case send_all rt qs w' of (rs, w'') \<Rightarrow> (r # rs, w'')))"

end
