(* ===== verification/GoRegexp.thy ===== *)
theory GoRegexp
  imports GoStrings
begin

text \<open>
  Regular expressions with the constructs the code's patterns use, and a matcher by derivatives.
  All the patterns are anchored with \<open>^\<close> and \<open>$\<close> and without the multi-line flag, so
  \<open>MatchString\<close> is membership of the whole string in the language. A flag \<open>(?i)\<close> is
  written out as both cases of each letter.
\<close>

section \<open>Syntax\<close>

datatype regexp =
    RNone
  | REmpty
  | RSet "(int \<times> int) list"
  | RSeq regexp regexp
  | RAlt regexp regexp
  | RStar regexp

text \<open>A character class is a list of code ranges.\<close>

definition in_class :: "(int \<times> int) list \<Rightarrow> char \<Rightarrow> bool" where
  "in_class rs c \<longleftrightarrow> list_ex (\<lambda>(lo, hi). in_range lo hi c) rs"

definition r_char :: "char \<Rightarrow> regexp" where
  "r_char c = RSet [(code c, code c)]"

definition r_plus :: "regexp \<Rightarrow> regexp" where
  "r_plus r = RSeq r (RStar r)"

definition r_opt :: "regexp \<Rightarrow> regexp" where
  "r_opt r = RAlt REmpty r"

text \<open>\<open>r{n}\<close> and \<open>r{0,n}\<close>, so \<open>r{m,m+n}\<close> is their sequence.\<close>

fun r_times :: "nat \<Rightarrow> regexp \<Rightarrow> regexp" where
  "r_times 0 r = REmpty"
| "r_times (Suc n) r = RSeq r (r_times n r)"

fun r_upto :: "nat \<Rightarrow> regexp \<Rightarrow> regexp" where
  "r_upto 0 r = REmpty"
| "r_upto (Suc n) r = r_opt (RSeq r (r_upto n r))"

abbreviation "digit_class \<equiv> [(48, 57)]"
abbreviation "octal_class \<equiv> [(48, 55)]"
abbreviation "hex_class \<equiv> [(48, 57), (97, 102), (65, 70)]"

section \<open>Matching\<close>

fun nullable :: "regexp \<Rightarrow> bool" where
  "nullable RNone = False"
| "nullable REmpty = True"
| "nullable (RSet _) = False"
| "nullable (RSeq r s) = (nullable r \<and> nullable s)"
| "nullable (RAlt r s) = (nullable r \<or> nullable s)"
| "nullable (RStar _) = True"

fun deriv :: "char \<Rightarrow> regexp \<Rightarrow> regexp" where
  "deriv c RNone = RNone"
| "deriv c REmpty = RNone"
| "deriv c (RSet rs) = (if in_class rs c then REmpty else RNone)"
| "deriv c (RSeq r s) =
     (if nullable r then RAlt (RSeq (deriv c r) s) (deriv c s) else RSeq (deriv c r) s)"
| "deriv c (RAlt r s) = RAlt (deriv c r) (deriv c s)"
| "deriv c (RStar r) = RSeq (deriv c r) (RStar r)"

fun match_string :: "regexp \<Rightarrow> string \<Rightarrow> bool" where
  "match_string r [] = nullable r"
| "match_string r (c # cs) = match_string (deriv c r) cs"

section \<open>The language of an expression\<close>

inductive_set star :: "string set \<Rightarrow> string set" for A where
  star_nil: "[] \<in> star A"
| star_app: "x \<in> A \<Longrightarrow> y \<in> star A \<Longrightarrow> x @ y \<in> star A"

fun lang :: "regexp \<Rightarrow> string set" where
  "lang RNone = {}"
| "lang REmpty = {[]}"
| "lang (RSet rs) = {[c] | c. in_class rs c}"
| "lang (RSeq r s) = {x @ y | x y. x \<in> lang r \<and> y \<in> lang s}"
| "lang (RAlt r s) = lang r \<union> lang s"
| "lang (RStar r) = star (lang r)"

lemma nullable_lang: "nullable r \<longleftrightarrow> [] \<in> lang r"
  by (induction r) (auto intro: star_nil)

lemma star_Cons: "c # z \<in> star A \<longleftrightarrow> (\<exists>x y. z = x @ y \<and> c # x \<in> A \<and> y \<in> star A)"
proof
  have "w \<in> star A \<Longrightarrow> w = c # z \<Longrightarrow> \<exists>x y. z = x @ y \<and> c # x \<in> A \<and> y \<in> star A" for w
    by (induction arbitrary: z rule: star.induct) (force simp: append_eq_Cons_conv)+
  then show "c # z \<in> star A \<Longrightarrow> \<exists>x y. z = x @ y \<and> c # x \<in> A \<and> y \<in> star A" by blast
next
  assume "\<exists>x y. z = x @ y \<and> c # x \<in> A \<and> y \<in> star A"
  then show "c # z \<in> star A" using star_app [of "c # _"] by fastforce
qed

lemma lang_deriv: "z \<in> lang (deriv c r) \<longleftrightarrow> c # z \<in> lang r"
proof (induction r arbitrary: z)
  case (RSeq r s)
  then show ?case by (auto simp: nullable_lang Cons_eq_append_conv)
next
  case (RStar r)
  then show ?case by (auto simp: star_Cons)
qed auto

theorem match_string_lang: "match_string r s \<longleftrightarrow> s \<in> lang r"
  by (induction s arbitrary: r) (auto simp: nullable_lang lang_deriv)

section \<open>Languages of the derived forms\<close>

lemma in_class_simps:
  "\<not> in_class [] c"
  "in_class ((lo, hi) # rs) c \<longleftrightarrow> in_range lo hi c \<or> in_class rs c"
  by (simp_all add: in_class_def)

lemma in_range_code [simp]: "in_range (code d) (code d) c \<longleftrightarrow> c = d"
  using code_inj by (fastforce simp: in_range_def)

lemma lang_r_char [simp]: "lang (r_char c) = {[c]}"
  by (auto simp: r_char_def in_class_simps)

lemma lang_star_set: "star {[c] | c. P c} = {s. list_all P s}"
proof (rule set_eqI)
  fix s
  have "s \<in> star {[c] | c. P c} \<Longrightarrow> list_all P s"
    by (induction rule: star.induct) auto
  moreover have "list_all P s \<Longrightarrow> s \<in> star {[c] | c. P c}"
    by (induction s) (auto simp: star_Cons intro: star_nil)
  ultimately show "s \<in> star {[c] | c. P c} \<longleftrightarrow> s \<in> {s. list_all P s}" by auto
qed

lemma lang_seq_set:
  "lang (RSeq (RSet rs) r) = {c # cs | c cs. in_class rs c \<and> cs \<in> lang r}"
  by auto (metis append_Cons append_Nil)

lemma lang_plus_set:
  "lang (r_plus (RSet rs)) = {s. s \<noteq> [] \<and> list_all (in_class rs) s}"
proof -
  have "lang (RStar (RSet rs)) = {s. list_all (in_class rs) s}"
    by (simp add: lang_star_set)
  then show ?thesis
    unfolding r_plus_def lang_seq_set by (auto simp: neq_Nil_conv)
qed

lemma lang_times_set:
  "lang (r_times n (RSet rs)) = {s. length s = n \<and> list_all (in_class rs) s}"
proof (induction n)
  case (Suc n)
  show ?case
    unfolding r_times.simps lang_seq_set Suc by (auto simp: length_Suc_conv)
qed auto

lemma lang_r_opt [simp]: "lang (r_opt r) = insert [] (lang r)"
  by (simp add: r_opt_def)

lemma lang_upto_set:
  "lang (r_upto n (RSet rs)) = {s. length s \<le> n \<and> list_all (in_class rs) s}"
proof (induction n)
  case (Suc n)
  have "z \<in> lang (r_upto (Suc n) (RSet rs)) \<longleftrightarrow> length z \<le> Suc n \<and> list_all (in_class rs) z" for z
    unfolding r_upto.simps lang_r_opt lang_seq_set Suc by (cases z) auto
  then show ?case by blast
qed auto

lemma class_is_digit [simp]: "in_class digit_class = is_digit"
  by (rule ext) (simp add: in_class_simps is_digit_def)

lemma class_is_octal [simp]: "in_class octal_class = is_octal"
  by (rule ext) (simp add: in_class_simps is_octal_def)

lemma class_is_hex [simp]: "in_class hex_class = is_hex"
  by (rule ext) (simp add: in_class_simps is_hex_def is_digit_def)

end
