(* ===== verification/MetricsTransport.thy ===== *)
theory MetricsTransport
  imports HttpTransport GoRegexp
begin

text \<open>
  The metrics layer (\<open>metrics_transport.go\<close>): the labels of a request, the class of a
  transport error and \<open>metricsTransport.RoundTrip\<close>.
\<close>

section \<open>Error classes\<close>

text \<open>
  The types with a \<open>Timeout\<close> method, and what it returns. Those of \<open>net.OpError\<close> and
  \<open>os.SyscallError\<close> ask the error they hold, if it has the method; a \<open>syscall.Errno\<close> is a
  timeout for EAGAIN and ETIMEDOUT. The numbers are those of Linux.
\<close>

definition errno_eagain :: nat where "errno_eagain = 11"
definition errno_etimedout :: nat where "errno_etimedout = 110"
definition econnrefused :: nat where "econnrefused = 111"

fun timeout_of :: "go_err \<Rightarrow> bool" where
  "timeout_of (GoErr (KSentinel s) m w) = (s = ContextDeadlineExceeded)"
| "timeout_of (GoErr (KDNS not_found timeout) m w) = timeout"
| "timeout_of (GoErr (KErrno n) m w) = (n = errno_eagain \<or> n = errno_etimedout)"
| "timeout_of (GoErr (KNet t) m w) = t"
| "timeout_of (GoErr KOp m (Some e)) = timeout_of e"
| "timeout_of (GoErr KSyscall m (Some e)) = timeout_of e"
| "timeout_of (GoErr _ m w) = False"

text \<open>\<open>net.Error\<close> also asks for \<open>Temporary\<close>, which \<open>os.SyscallError\<close> does not have.\<close>

definition is_net_error :: "go_err \<Rightarrow> bool" where
  "is_net_error e =
     (case kind e of
        KSentinel s \<Rightarrow> s = ContextDeadlineExceeded
      | KDNS _ _ \<Rightarrow> True | KOp \<Rightarrow> True | KErrno _ \<Rightarrow> True | KNet _ \<Rightarrow> True
      | KSyscall \<Rightarrow> False | KText \<Rightarrow> False)"

definition as_net_error :: "go_err \<Rightarrow> go_err option" where
  "as_net_error e = List.find is_net_error (err_chain e)"

definition as_op_error :: "go_err \<Rightarrow> go_err option" where
  "as_op_error e = List.find (\<lambda>x. kind x = KOp) (err_chain e)"

definition is_errno :: "nat \<Rightarrow> go_err option \<Rightarrow> bool" where
  "is_errno n e =
     (case e of None \<Rightarrow> False | Some x \<Rightarrow> list_ex (\<lambda>y. kind y = KErrno n) (err_chain x))"

definition categorize_error :: "go_err option \<Rightarrow> string" where
  "categorize_error err =
     (case err of
        None \<Rightarrow> ''none''
      | Some e \<Rightarrow>
          if errors_is e ContextCanceled then ''context_canceled''
          else if errors_is e ContextDeadlineExceeded then ''context_timeout''
          else if (case as_net_error e of None \<Rightarrow> False | Some n \<Rightarrow> timeout_of n) then ''network_timeout''
          else if (case as_op_error e of None \<Rightarrow> False | Some x \<Rightarrow> is_errno econnrefused (wrapped x))
          then ''connection_refused''
          else if as_dns_error e \<noteq> None then ''dns_error''
          else ''unknown'')"

section \<open>Path templates\<close>

definition uuid_pattern :: regexp where
  "uuid_pattern =
     RSeq (r_times 8 (RSet hex_class)) (RSeq (r_char (CHR ''-''))
     (RSeq (r_times 4 (RSet hex_class)) (RSeq (r_char (CHR ''-''))
     (RSeq (r_times 4 (RSet hex_class)) (RSeq (r_char (CHR ''-''))
     (RSeq (r_times 4 (RSet hex_class)) (RSeq (r_char (CHR ''-'')) (r_times 12 (RSet hex_class)))))))))"

definition sha_pattern :: regexp where
  "sha_pattern = RSeq (r_times 40 (RSet hex_class)) (r_upto 24 (RSet hex_class))"

definition int_pattern :: regexp where
  "int_pattern = r_plus (RSet digit_class)"

definition parameterize_segment :: "string \<Rightarrow> string" where
  "parameterize_segment segment =
     (if segment = [] then segment
      else if match_string uuid_pattern segment then ''{id}''
      else if match_string sha_pattern segment then ''{hash}''
      else if match_string int_pattern segment then ''{id}''
      else segment)"

definition parameterize_path :: "string \<Rightarrow> string" where
  "parameterize_path path =
     (if path = [] \<or> path = ''/'' then path
      else CHR ''/'' # join_char (CHR ''/'')
             (map parameterize_segment (split_char (CHR ''/'') (trim_char (CHR ''/'') path))))"

definition extract_metric_labels :: "url \<Rightarrow> string \<times> string" where
  "extract_metric_labels u =
     (let host = hostname u; pt = port u
      in (if pt \<noteq> []
          then (if (url_scheme u = ''http'' \<and> pt \<noteq> ''80'') \<or> (url_scheme u = ''https'' \<and> pt \<noteq> ''443'')
                then host @ CHR '':'' # pt else host)
          else host,
          parameterize_path (url_path u)))"

section \<open>The round trip\<close>

text \<open>
  \<open>clock\<close> reads the time off the world. The labels of all the calls are those of the request.
\<close>

definition request_labels :: "http_request \<Rightarrow> labels" where
  "request_labels req = (rq_method req, extract_metric_labels (rq_url req))"

definition status_of :: "http_response option \<Rightarrow> int" where
  "status_of r = (case r of None \<Rightarrow> -1 | Some resp \<Rightarrow> rs_status resp)"

definition record_request_size :: "'w metrics \<Rightarrow> http_request \<Rightarrow> 'w \<Rightarrow> 'w" where
  "record_request_size m req w =
     (if has_body req \<and> rq_content_length req > 0
      then m (RecordRequestSize (request_labels req) (rq_content_length req)) w else w)"

definition record_response_size :: "'w metrics \<Rightarrow> labels \<Rightarrow> http_response option \<Rightarrow> 'w \<Rightarrow> 'w" where
  "record_response_size m l r w =
     (case r of
        None \<Rightarrow> w
      | Some resp \<Rightarrow>
          if rs_content_length resp > 0 then m (RecordResponseSize l (rs_content_length resp)) w else w)"

definition metrics_round_trip :: "'w metrics \<Rightarrow> ('w \<Rightarrow> instant) \<Rightarrow> 'w http_tripper \<Rightarrow> 'w http_tripper" where
  "metrics_round_trip m clock base req w =
     (let start = clock w;
          l = request_labels req
      in case base req (record_request_size m req w) of
           (Panics, w') \<Rightarrow> (Panics, w')
         | (Answers r e, w') \<Rightarrow>
             (let d = clock w' - start;
                  w' = record_response_size m l r w';
                  w' = m (RecordRequestDuration l (status_of r) d) w';
                  w' = m (IncrementRequestsTotal l (status_of r)) w'
              in (Answers r e,
                  if e \<noteq> None then m (IncrementErrorsTotal l (categorize_error e)) w' else w')))"

section \<open>Segments\<close>

definition is_id :: "string \<Rightarrow> bool" where
  "is_id s \<longleftrightarrow> match_string uuid_pattern s \<or> match_string sha_pattern s \<or> match_string int_pattern s"

definition template_ok :: "string \<Rightarrow> bool" where
  "template_ok p \<longleftrightarrow> list_all (\<lambda>s. \<not> is_id s) (split_char (CHR ''/'') p)"

lemma not_id_simps [simp]: "\<not> is_id []" "\<not> is_id ''{id}''" "\<not> is_id ''{hash}''"
  by code_simp+

lemma parameterize_segment_not_id [simp]: "\<not> is_id (parameterize_segment s)"
  using not_id_simps by (auto simp: parameterize_segment_def) (auto simp: is_id_def)

lemma parameterize_segment_fixed: "\<not> is_id s \<Longrightarrow> parameterize_segment s = s"
  by (auto simp: parameterize_segment_def is_id_def)

lemma parameterize_segment_Nil [simp]: "parameterize_segment s = [] \<longleftrightarrow> s = []"
  by (simp add: parameterize_segment_def)

lemma parameterize_segment_slash: "CHR ''/'' \<notin> set s \<Longrightarrow> CHR ''/'' \<notin> set (parameterize_segment s)"
  by (simp add: parameterize_segment_def)

lemma split_hd_Nil: "hd (split_char c t) = [] \<longleftrightarrow> t = [] \<or> hd t = c"
  by (cases t) (auto split: list.split)

lemma split_last_Nil: "last (split_char c t) = [] \<longleftrightarrow> t = [] \<or> last t = c"
proof (induction t)
  case (Cons x t)
  show ?case
  proof (cases "split_char c t")
    case (Cons y ys)
    with Cons.IH show ?thesis by (cases t) (auto split: list.splits if_splits)
  qed simp
qed simp

lemma last_dropWhile: "dropWhile P xs \<noteq> [] \<Longrightarrow> last (dropWhile P xs) = last xs"
  by (induction xs) (auto split: if_splits)

definition trimmed :: "char \<Rightarrow> string \<Rightarrow> bool" where
  "trimmed c t \<longleftrightarrow> t = [] \<or> hd t \<noteq> c \<and> last t \<noteq> c"

lemma trimmed_trim: "trimmed c (trim_char c s)"
proof (cases "trim_char c s = []")
  case False
  define u where "u = dropWhile (\<lambda>x. x = c) s"
  define v where "v = dropWhile (\<lambda>x. x = c) (rev u)"
  have t: "trim_char c s = rev v" by (simp add: trim_char_def u_def v_def)
  have v: "v \<noteq> []" using False t by simp
  then have "u \<noteq> []" by (auto simp: v_def)
  then have "hd u \<noteq> c" using hd_dropWhile [of "\<lambda>x. x = c" s] by (simp add: u_def)
  moreover have "hd v \<noteq> c" using v hd_dropWhile [of "\<lambda>x. x = c" "rev u"] by (simp add: v_def)
  moreover have "last v = hd u"
    using v last_dropWhile [of "\<lambda>x. x = c" "rev u"] by (simp add: v_def last_rev)
  ultimately show ?thesis using v by (simp add: trimmed_def t hd_rev last_rev)
qed (simp add: trimmed_def)

lemma trim_trimmed: "trimmed c t \<Longrightarrow> trim_char c t = t"
proof (cases "t = []")
  case False
  assume "trimmed c t"
  with False have "hd t \<noteq> c" "hd (rev t) \<noteq> c" by (auto simp: trimmed_def hd_rev)
  with False have "dropWhile (\<lambda>x. x = c) t = t" "dropWhile (\<lambda>x. x = c) (rev t) = rev t"
    by (auto simp: dropWhile_eq_self_iff)
  then show ?thesis by (simp add: trim_char_def)
qed (simp add: trim_char_def)

lemma trim_Cons [simp]: "trim_char c (c # s) = trim_char c s"
  by (simp add: trim_char_def)

text \<open>The segments of a path, and what replacing them does to it.\<close>

lemma segments_map:
  assumes "\<And>s. CHR ''/'' \<notin> set s \<Longrightarrow> CHR ''/'' \<notin> set (f s)"
  shows "split_char (CHR ''/'') (join_char (CHR ''/'') (map f (split_char (CHR ''/'') t))) =
    map f (split_char (CHR ''/'') t)"
proof (rule split_join)
  show "\<forall>x\<in>set (map f (split_char (CHR ''/'') t)). CHR ''/'' \<notin> set x"
    using split_char_no_sep assms by fastforce
qed simp

lemma map_segments_trimmed:
  assumes "\<And>s. CHR ''/'' \<notin> set s \<Longrightarrow> CHR ''/'' \<notin> set (f s)" and "\<And>s. f s = [] \<longleftrightarrow> s = []"
    and "trimmed (CHR ''/'') t"
  shows "trimmed (CHR ''/'') (join_char (CHR ''/'') (map f (split_char (CHR ''/'') t)))"
proof -
  let ?t = "join_char (CHR ''/'') (map f (split_char (CHR ''/'') t))"
  have s: "split_char (CHR ''/'') ?t = map f (split_char (CHR ''/'') t)"
    by (rule segments_map [OF assms(1)])
  have "hd (split_char (CHR ''/'') ?t) = [] \<longleftrightarrow> hd (split_char (CHR ''/'') t) = []"
    "last (split_char (CHR ''/'') ?t) = [] \<longleftrightarrow> last (split_char (CHR ''/'') t) = []"
    unfolding s by (simp_all add: hd_map last_map assms(2))
  moreover have "t = [] \<Longrightarrow> ?t = []" using assms(2) [of "[]"] by simp
  ultimately show ?thesis using assms(3) by (auto simp: trimmed_def split_hd_Nil split_last_Nil)
qed

lemma parameterize_segments:
  assumes "path \<noteq> []" "path \<noteq> ''/''"
  obtains t where "trimmed (CHR ''/'') t" "parameterize_path path = CHR ''/'' # t"
    "split_char (CHR ''/'') t = map parameterize_segment (split_char (CHR ''/'') (trim_char (CHR ''/'') path))"
proof
  let ?t = "join_char (CHR ''/'')
      (map parameterize_segment (split_char (CHR ''/'') (trim_char (CHR ''/'') path)))"
  show "trimmed (CHR ''/'') ?t"
    by (rule map_segments_trimmed) (auto simp: trimmed_trim dest: parameterize_segment_slash)
  show "parameterize_path path = CHR ''/'' # ?t" using assms by (simp add: parameterize_path_def)
  show "split_char (CHR ''/'') ?t =
      map parameterize_segment (split_char (CHR ''/'') (trim_char (CHR ''/'') path))"
    by (rule segments_map) (rule parameterize_segment_slash)
qed

lemma parameterize_template_ok: "template_ok (parameterize_path path)"
proof (cases "path = [] \<or> path = ''/''")
  case True
  then show ?thesis by (auto simp: parameterize_path_def template_ok_def)
next
  case False
  then obtain t where "parameterize_path path = CHR ''/'' # t"
    "split_char (CHR ''/'') t = map parameterize_segment (split_char (CHR ''/'') (trim_char (CHR ''/'') path))"
    by (auto elim: parameterize_segments)
  then show ?thesis by (simp add: template_ok_def list_all_iff)
qed

lemma map_fixed: "list_all P xs \<Longrightarrow> (\<And>x. P x \<Longrightarrow> f x = x) \<Longrightarrow> map f xs = xs"
  by (induction xs) auto

lemma parameterize_idem: "parameterize_path (parameterize_path path) = parameterize_path path"
proof (cases "path = [] \<or> path = ''/''")
  case True
  then show ?thesis by (auto simp: parameterize_path_def)
next
  case False
  then obtain t where t: "trimmed (CHR ''/'') t" "parameterize_path path = CHR ''/'' # t"
    by (auto elim: parameterize_segments)
  have "list_all (\<lambda>s. \<not> is_id s) (split_char (CHR ''/'') t)"
    using parameterize_template_ok [of path] t(2) by (simp add: template_ok_def)
  then have "map parameterize_segment (split_char (CHR ''/'') t) = split_char (CHR ''/'') t"
    by (rule map_fixed) (rule parameterize_segment_fixed)
  then have "parameterize_path (CHR ''/'' # t) = CHR ''/'' # t"
    using trim_trimmed [OF t(1)] by (simp add: parameterize_path_def)
  with t(2) show ?thesis by simp
qed

section \<open>What is recorded\<close>

definition size_events :: "http_request \<Rightarrow> metric_event list" where
  "size_events req =
     (if has_body req \<and> rq_content_length req > 0
      then [RecordRequestSize (request_labels req) (rq_content_length req)] else [])"

definition answer_events ::
    "labels \<Rightarrow> duration \<Rightarrow> http_response option \<Rightarrow> go_err option \<Rightarrow> metric_event list" where
  "answer_events l d r e =
     (case r of None \<Rightarrow> []
      | Some resp \<Rightarrow> if rs_content_length resp > 0 then [RecordResponseSize l (rs_content_length resp)] else [])
     @ [RecordRequestDuration l (status_of r) d, IncrementRequestsTotal l (status_of r)]
     @ (if e = None then [] else [IncrementErrorsTotal l (categorize_error e)])"

definition events_of :: "http_request \<Rightarrow> duration \<Rightarrow> rt_outcome \<Rightarrow> metric_event list" where
  "events_of req d r =
     size_events req @ (case r of Panics \<Rightarrow> [] | Answers resp e \<Rightarrow> answer_events (request_labels req) d resp e)"

lemma metrics_round_trip_log:
  assumes "base req w = (r, w')"
  shows "metrics_round_trip log_metrics (clk \<circ> fst) (unlogged base) req (w, es) =
    (r, w', es @ events_of req (clk w' - clk w) r)"
  using assms
  by (auto simp: metrics_round_trip_def log_metrics_def unlogged_def events_of_def size_events_def
      answer_events_def record_request_size_def record_response_size_def Let_def
      split: rt_outcome.split option.split)

fun total_of :: "metric_event \<Rightarrow> (labels \<times> int) option" where
  "total_of (IncrementRequestsTotal l s) = Some (l, s)"
| "total_of _ = None"

fun duration_of :: "metric_event \<Rightarrow> (labels \<times> int) option" where
  "duration_of (RecordRequestDuration l s d) = Some (l, s)"
| "duration_of _ = None"

fun error_of :: "metric_event \<Rightarrow> (labels \<times> string) option" where
  "error_of (IncrementErrorsTotal l t) = Some (l, t)"
| "error_of _ = None"

definition collect :: "(metric_event \<Rightarrow> 'a option) \<Rightarrow> metric_event list \<Rightarrow> 'a list" where
  "collect f es = List.map_filter f es"

lemma collect_simps [simp]:
  "collect f [] = []"
  "collect f (e # es) = (case f e of None \<Rightarrow> collect f es | Some x \<Rightarrow> x # collect f es)"
  "collect f (es @ fs) = collect f es @ collect f fs"
  by (auto simp: collect_def List.map_filter_def split: option.split)

definition counted_answers :: "(http_request \<times> rt_outcome) list \<Rightarrow> (labels \<times> int) list" where
  "counted_answers qrs =
     map (\<lambda>(q, r). (request_labels q, status_of (rt_response r))) (filter (\<lambda>(q, r). r \<noteq> Panics) qrs)"

definition counted_errors :: "(http_request \<times> rt_outcome) list \<Rightarrow> (labels \<times> string) list" where
  "counted_errors qrs =
     map (\<lambda>(q, r). (request_labels q, categorize_error (rt_error r)))
       (filter (\<lambda>(q, r). r \<noteq> Panics \<and> rt_error r \<noteq> None) qrs)"

definition bounded_label :: "metric_event \<Rightarrow> bool" where
  "bounded_label e \<longleftrightarrow> (case event_labels e of None \<Rightarrow> False | Some l \<Rightarrow> template_ok (snd (snd l)))"

lemma labels_ok: "template_ok (snd (snd (request_labels q)))"
  by (simp add: request_labels_def extract_metric_labels_def Let_def parameterize_template_ok)

lemma events_of_counts:
  "collect total_of (events_of q d r) = counted_answers [(q, r)]"
  "collect duration_of (events_of q d r) = counted_answers [(q, r)]"
  "collect error_of (events_of q d r) = counted_errors [(q, r)]"
  "list_all bounded_label (events_of q d r)"
  using labels_ok [of q]
  by (auto simp: events_of_def size_events_def answer_events_def counted_answers_def
      counted_errors_def bounded_label_def split: rt_outcome.split option.split)

lemma counted_Cons:
  "counted_answers (x # xs) = counted_answers [x] @ counted_answers xs"
  "counted_errors (x # xs) = counted_errors [x] @ counted_errors xs"
  by (simp_all add: counted_answers_def counted_errors_def)

lemma send_all_log:
  assumes "send_all base qs w = (rs, w')"
  shows "\<exists>new. send_all (metrics_round_trip log_metrics (clk \<circ> fst) (unlogged base)) qs (w, es) =
      (rs, w', es @ new)
    \<and> collect total_of new = counted_answers (zip qs rs)
    \<and> collect duration_of new = counted_answers (zip qs rs)
    \<and> collect error_of new = counted_errors (zip qs rs)
    \<and> list_all bounded_label new"
  using assms
proof (induction qs arbitrary: w rs es)
  case (Cons q qs)
  obtain r w1 where b: "base q w = (r, w1)" by fastforce
  then obtain rs' where rs: "rs = r # rs'" and s: "send_all base qs w1 = (rs', w')"
    using Cons.prems by (auto split: prod.splits)
  let ?new = "events_of q (clk w1 - clk w) r"
  from Cons.IH [OF s, of "es @ ?new"] obtain new where
    "send_all (metrics_round_trip log_metrics (clk \<circ> fst) (unlogged base)) qs (w1, es @ ?new) =
      (rs', w', (es @ ?new) @ new)"
    and n: "collect total_of new = counted_answers (zip qs rs')"
      "collect duration_of new = counted_answers (zip qs rs')"
      "collect error_of new = counted_errors (zip qs rs')" "list_all bounded_label new"
    by blast
  with metrics_round_trip_log [where base = base and clk = clk and es = es, OF b] have
    "send_all (metrics_round_trip log_metrics (clk \<circ> fst) (unlogged base)) (q # qs) (w, es) =
      (rs, w', es @ (?new @ new))"
    by (simp add: rs)
  moreover have "collect total_of (?new @ new) = counted_answers (zip (q # qs) rs)"
    "collect duration_of (?new @ new) = counted_answers (zip (q # qs) rs)"
    "collect error_of (?new @ new) = counted_errors (zip (q # qs) rs)"
    "list_all bounded_label (?new @ new)"
    using n events_of_counts [of q "clk w1 - clk w" r] counted_Cons [of "(q, r)" "zip qs rs'"]
    by (simp_all add: rs)
  ultimately show ?case by blast
qed (simp add: counted_answers_def counted_errors_def)

section \<open>Properties\<close>

text \<open>
  C35: Over any sequence of requests the metrics backend is told one total and one duration for
  each answer and one error for each failed answer, with the labels and status of that request,
  and the answers are those of the base transport; every label is a path template.
\<close>

theorem metrics_account:
  "case send_all (metrics_round_trip log_metrics (clk \<circ> fst) (unlogged base)) qs (w, []) of
     (rs, w', es) \<Rightarrow>
       send_all base qs w = (rs, w')
       \<and> collect total_of es = counted_answers (zip qs rs)
       \<and> collect duration_of es = counted_answers (zip qs rs)
       \<and> collect error_of es = counted_errors (zip qs rs)
       \<and> list_all bounded_label es"
proof -
  obtain rs w' where s: "send_all base qs w = (rs, w')" by fastforce
  from send_all_log [OF s, of clk "[]"] s show ?thesis by auto
qed

text \<open>
  No segment of a path template is an identifier the patterns match, and the template of a
  template is itself.
\<close>

lemma path_template_stable:
  "template_ok (parameterize_path path)
   \<and> parameterize_path (parameterize_path path) = parameterize_path path"
  by (simp add: parameterize_template_ok parameterize_idem)

text \<open>Wrapping an error with \<open>%w\<close> does not change its class.\<close>

lemma find_errorf_w:
  "as_net_error (errorf_w m e) = as_net_error e" "as_op_error (errorf_w m e) = as_op_error e"
  by (simp_all add: as_net_error_def as_op_error_def errorf_w_def is_net_error_def)

lemma categorize_wrapped: "categorize_error (Some (errorf_w m e)) = categorize_error (Some e)"
  by (simp add: categorize_error_def find_errorf_w)

end
