(* ===== verification/GoNet.thy ===== *)
theory GoNet
  imports GoStrings "HOL-Library.Word"
begin

unbundle bit_operations_syntax

text \<open>
  The part of Go's \<open>net\<close> package the code uses: \<open>net.IP\<close> as a byte slice with
  \<open>To4\<close> and \<open>To16\<close>, \<open>net.IPNet\<close> with \<open>Contains\<close>, and the parsers
  \<open>ParseIP\<close>, \<open>ParseCIDR\<close> and \<open>SplitHostPort\<close>. A \<open>net.IP\<close> is the list of
  its bytes; \<open>nil\<close> and the empty slice are both \<open>[]\<close>, except as a result, where
  \<open>nil\<close> is \<open>None\<close>.
\<close>

type_synonym byte = "8 word"
type_synonym ip = "byte list"

section \<open>Addresses\<close>

definition v4_in_v6_prefix :: "byte list" where
  "v4_in_v6_prefix = [0, 0, 0, 0, 0, 0, 0, 0, 0, 0, 255, 255]"

text \<open>\<open>net.IPv4(a, b, c, d)\<close> is the 16-byte form of the address.\<close>

definition ipv4 :: "byte \<Rightarrow> byte \<Rightarrow> byte \<Rightarrow> byte \<Rightarrow> ip" where
  "ipv4 a b c d = v4_in_v6_prefix @ [a, b, c, d]"

definition to4 :: "ip \<Rightarrow> ip option" where
  "to4 ip =
     (if length ip = 4 then Some ip
      else if length ip = 16 \<and> take 12 ip = v4_in_v6_prefix then Some (drop 12 ip)
      else None)"

definition to16 :: "ip \<Rightarrow> ip option" where
  "to16 ip =
     (if length ip = 4 then Some (v4_in_v6_prefix @ ip)
      else if length ip = 16 then Some ip
      else None)"

definition well_formed_ip :: "ip \<Rightarrow> bool" where
  "well_formed_ip ip \<longleftrightarrow> length ip = 4 \<or> length ip = 16"

section \<open>Networks\<close>

record ipnet =
  net_ip :: ip
  net_mask :: "byte list"

text \<open>
  \<open>networkNumberAndMask\<close>: the bytes \<open>Contains\<close> compares, an empty pair for a network
  whose parts do not fit together.
\<close>

definition network_number_and_mask :: "ipnet \<Rightarrow> ip \<times> byte list" where
  "network_number_and_mask n =
     (let nn = (case to4 (net_ip n) of Some v4 \<Rightarrow> v4 | None \<Rightarrow> net_ip n);
          m = net_mask n
      in if length nn \<noteq> 4 \<and> length nn \<noteq> 16 then ([], [])
         else if length m = 4 then (if length nn = 4 then (nn, m) else ([], []))
         else if length m = 16 then (nn, if length nn = 4 then drop 12 m else m)
         else ([], []))"

definition contains :: "ipnet \<Rightarrow> ip \<Rightarrow> bool" where
  "contains n ip =
     (let (nn, m) = network_number_and_mask n;
          x = (case to4 ip of Some v4 \<Rightarrow> v4 | None \<Rightarrow> ip)
      in length x = length nn \<and> map2 (AND) nn m = map2 (AND) x m)"

text \<open>\<open>net.CIDRMask\<close> and \<open>IP.Mask\<close>.\<close>

fun mask_bytes :: "nat \<Rightarrow> nat \<Rightarrow> byte list" where
  "mask_bytes 0 n = []"
| "mask_bytes (Suc l) n =
     (if n \<ge> 8 then 255 # mask_bytes l (n - 8)
      else NOT (drop_bit n 255) # mask_bytes l 0)"

definition cidr_mask :: "nat \<Rightarrow> nat \<Rightarrow> byte list" where
  "cidr_mask ones bits = mask_bytes (bits div 8) ones"

definition ip_mask :: "ip \<Rightarrow> byte list \<Rightarrow> ip" where
  "ip_mask ip m =
     (let m' = (if length m = 16 \<and> length ip = 4 \<and> take 12 m = replicate 12 255
                then drop 12 m else m);
          ip' = (if length m' = 4 \<and> length ip = 16 \<and> take 12 ip = v4_in_v6_prefix
                 then drop 12 ip else ip)
      in if length ip' \<noteq> length m' then [] else map2 (AND) ip' m')"

section \<open>Parsing addresses\<close>

text \<open>Dotted decimal: four octets of digits, no leading zero, each at most 255.\<close>

definition octet_ok :: "string \<Rightarrow> bool" where
  "octet_ok s \<longleftrightarrow> s \<noteq> [] \<and> list_all is_digit s \<and> (length s = 1 \<or> hd s \<noteq> CHR ''0'')
     \<and> dec_val 0 s \<le> 255"

definition parse_v4_fields :: "string \<Rightarrow> byte list option" where
  "parse_v4_fields s =
     (let fs = split_char (CHR ''.'') s
      in if length fs = 4 \<and> list_all octet_ok fs
         then Some (map (\<lambda>f. of_int (dec_val 0 f)) fs) else None)"

text \<open>
  The loop of \<open>netip.parseIPv6\<close>. The arguments are the number of two-byte groups there is
  still room for, the bytes so far, the position of the ellipsis and the unread text; the result is
  the last three. Each iteration writes two bytes, so eight groups bound the loop.
\<close>

definition hex_group :: "string \<Rightarrow> byte list" where
  "hex_group hs = (let v = hex_val 0 hs in [of_int (v div 256), of_int (v mod 256)])"

fun v6_loop :: "nat \<Rightarrow> byte list \<Rightarrow> nat option \<Rightarrow> string \<Rightarrow>
    (byte list \<times> nat option \<times> string) option" where
  "v6_loop 0 acc ell s = Some (acc, ell, s)"
| "v6_loop (Suc k) acc ell s =
     (let hs = takeWhile is_hex s; rest = dropWhile is_hex s; acc' = acc @ hex_group hs
      in if hs = [] \<or> length hs > 4 then None
         else (case rest of
             [] \<Rightarrow> Some (acc', ell, [])
           | c # cs \<Rightarrow>
               if c = CHR ''.'' then
                 (if (ell = None \<and> length acc \<noteq> 12) \<or> length acc + 4 > 16 then None
                  else (case parse_v4_fields s of
                      None \<Rightarrow> None
                    | Some b \<Rightarrow> Some (acc @ b, ell, [])))
               else if c \<noteq> CHR '':'' then None
               else (case cs of
                   [] \<Rightarrow> None
                 | d # ds \<Rightarrow>
                     if d = CHR '':'' then
                       (if ell \<noteq> None then None
                        else if ds = [] then Some (acc', Some (length acc'), [])
                        else v6_loop k acc' (Some (length acc')) ds)
                     else v6_loop k acc' ell cs)))"

definition expand_ellipsis :: "byte list \<times> nat option \<times> string \<Rightarrow> byte list option" where
  "expand_ellipsis r =
     (case r of (acc, ell, rest) \<Rightarrow>
        if rest \<noteq> [] then None
        else (case ell of
            None \<Rightarrow> if length acc = 16 then Some acc else None
          | Some e \<Rightarrow> if length acc < 16
                      then Some (take e acc @ replicate (16 - length acc) 0 @ drop e acc)
                      else None))"

definition parse_v6 :: "string \<Rightarrow> byte list option" where
  "parse_v6 s =
     (if take 2 s = ''::'' then
        (if drop 2 s = [] then Some (replicate 16 0)
         else Option.bind (v6_loop 8 [] (Some 0) (drop 2 s)) expand_ellipsis)
      else Option.bind (v6_loop 8 [] None s) expand_ellipsis)"

text \<open>
  \<open>netip.ParseAddr\<close>: the first of \<open>.\<close>, \<open>:\<close> and \<open>%\<close> decides the family. An
  address with a zone parses there, but every caller here rejects it, so it is \<open>None\<close>.
\<close>

datatype addr = Addr4 ip | Addr6 ip

definition is_addr_sep :: "char \<Rightarrow> bool" where
  "is_addr_sep c \<longleftrightarrow> c = CHR ''.'' \<or> c = CHR '':'' \<or> c = CHR ''%''"

definition parse_addr :: "string \<Rightarrow> addr option" where
  "parse_addr s =
     (case dropWhile (\<lambda>c. \<not> is_addr_sep c) s of
        [] \<Rightarrow> None
      | c # _ \<Rightarrow>
          if c = CHR ''.'' then map_option Addr4 (parse_v4_fields s)
          else if c = CHR '':'' then
            (if CHR ''%'' \<in> set s then None else map_option Addr6 (parse_v6 s))
          else None)"

definition addr_as16 :: "addr \<Rightarrow> ip" where
  "addr_as16 a = (case a of Addr4 b \<Rightarrow> v4_in_v6_prefix @ b | Addr6 b \<Rightarrow> b)"

definition addr_bit_len :: "addr \<Rightarrow> nat" where
  "addr_bit_len a = (case a of Addr4 _ \<Rightarrow> 32 | Addr6 _ \<Rightarrow> 128)"

text \<open>\<open>net.ParseIP\<close>: the 16-byte form, \<open>None\<close> for \<open>nil\<close>.\<close>

definition parse_ip :: "string \<Rightarrow> ip option" where
  "parse_ip s = map_option addr_as16 (parse_addr s)"

text \<open>\<open>net.ParseCIDR\<close>, its network result.\<close>

definition prefix_len :: "string \<Rightarrow> nat \<Rightarrow> nat option" where
  "prefix_len s bits =
     (if s \<noteq> [] \<and> list_all is_digit s \<and> dec_val 0 s \<le> int bits then Some (nat (dec_val 0 s)) else None)"

definition parse_cidr :: "string \<Rightarrow> ipnet option" where
  "parse_cidr s =
     (case cut_char (CHR ''/'') s of
        None \<Rightarrow> None
      | Some (a, m) \<Rightarrow>
          (case parse_addr a of
             None \<Rightarrow> None
           | Some ad \<Rightarrow>
               (case prefix_len m (addr_bit_len ad) of
                  None \<Rightarrow> None
                | Some n \<Rightarrow>
                    (let mk = cidr_mask n (addr_bit_len ad)
                     in Some \<lparr>net_ip = ip_mask (addr_as16 ad) mk, net_mask = mk\<rparr>))))"

section \<open>Splitting host and port\<close>

text \<open>\<open>net.SplitHostPort\<close>, \<open>None\<close> for its errors.\<close>

definition split_host_port :: "string \<Rightarrow> (string \<times> string) option" where
  "split_host_port hp =
     (case cut_last (CHR '':'') hp of
        None \<Rightarrow> None
      | Some (hpre, port) \<Rightarrow>
          if hd hp = CHR ''['' then
            (case cut_char (CHR '']'') hp of
               None \<Rightarrow> None
             | Some (inner, after) \<Rightarrow>
                 if Suc (length inner) \<noteq> length hpre then None
                 else if CHR ''['' \<in> set (tl hp) \<or> CHR '']'' \<in> set after then None
                 else Some (tl inner, port))
          else if CHR '':'' \<in> set hpre \<or> CHR ''['' \<in> set hp \<or> CHR '']'' \<in> set hp then None
          else Some (hpre, port))"

section \<open>Octets under a prefix mask\<close>

lemma byte_bit_less: "bit (b :: byte) n \<Longrightarrow> n < 8"
  using bit_imp_le_length [of b n] by simp

lemma and_high_bits:
  fixes b p :: byte
  shows "b AND NOT (mask k) = p AND NOT (mask k) \<longleftrightarrow> drop_bit k b = drop_bit k p"
proof -
  have "b AND NOT (mask k) = p AND NOT (mask k) \<longleftrightarrow> (\<forall>n. (bit b n \<and> \<not> n < k) = (bit p n \<and> \<not> n < k))"
    by (simp add: bit_eq_iff bit_and_iff bit_not_iff bit_mask_iff) (metis byte_bit_less)
  also have "\<dots> \<longleftrightarrow> (\<forall>n. bit b (k + n) = bit p (k + n))"
    by (metis le_add1 le_add_diff_inverse not_less)
  also have "\<dots> \<longleftrightarrow> drop_bit k b = drop_bit k p"
    by (simp add: bit_eq_iff bit_drop_bit_eq) (metis byte_bit_less add_lessD1 add.commute)
  finally show ?thesis .
qed
lemma drop_range:
  fixes b p :: byte
  shows "drop_bit k b = drop_bit k p \<longleftrightarrow> unat b div 2^k = unat p div 2^k"
proof -
  have "drop_bit k b = drop_bit k p \<longleftrightarrow> unat (drop_bit k b) = unat (drop_bit k p)"
    by (rule word_unat_eq_iff)
  then show ?thesis by (simp only: unat_drop_bit_eq drop_bit_eq_div [where ?'a = nat])
qed
lemma byte_mask0: "(255::byte) = NOT (mask 0)" by code_simp
lemma byte_mask1: "(254::byte) = NOT (mask 1)" by code_simp
lemma byte_mask4: "(240::byte) = NOT (mask 4)" by code_simp
lemma byte_mask6: "(192::byte) = NOT (mask 6)" by code_simp

lemma and_octet [net_simps]:
  "b AND 255 = (b :: byte)" "b AND 0 = (0 :: byte)"
  unfolding byte_mask0 by simp_all

lemma and_ranges [net_simps]:
  fixes b :: byte
  shows "16 = b AND 240 \<longleftrightarrow> 16 \<le> b \<and> b \<le> 31"
    and "240 = b AND 240 \<longleftrightarrow> 240 \<le> b"
    and "64 = b AND 192 \<longleftrightarrow> 64 \<le> b \<and> b \<le> 127"
    and "128 = b AND 192 \<longleftrightarrow> 128 \<le> b \<and> b \<le> 191"
    and "18 = b AND 254 \<longleftrightarrow> b = 18 \<or> b = 19"
    and "252 = b AND 254 \<longleftrightarrow> b = 252 \<or> b = 253"
proof -
  have eq: "p AND NOT (mask k) = p \<Longrightarrow> p = b AND NOT (mask k) \<longleftrightarrow> unat b div 2 ^ k = unat p div 2 ^ k"
    for p k using and_high_bits [of p k b] drop_range [of k p b] by auto
  have ub: "unat b < 256" using unsigned_less [of b] by simp
  have p: "16 AND NOT (mask 4) = (16 :: byte)" "240 AND NOT (mask 4) = (240 :: byte)"
      "64 AND NOT (mask 6) = (64 :: byte)" "128 AND NOT (mask 6) = (128 :: byte)"
      "18 AND NOT (mask 1) = (18 :: byte)" "252 AND NOT (mask 1) = (252 :: byte)"
    by (simp_all flip: byte_mask1 byte_mask4 byte_mask6)
  show "16 = b AND 240 \<longleftrightarrow> 16 \<le> b \<and> b \<le> 31"
    using eq [OF p(1)] ub unfolding byte_mask4 [symmetric] word_le_nat_alt by (simp, arith)
  show "240 = b AND 240 \<longleftrightarrow> 240 \<le> b"
    using eq [OF p(2)] ub unfolding byte_mask4 [symmetric] word_le_nat_alt by (simp, arith)
  show "64 = b AND 192 \<longleftrightarrow> 64 \<le> b \<and> b \<le> 127"
    using eq [OF p(3)] ub unfolding byte_mask6 [symmetric] word_le_nat_alt by (simp, arith)
  show "128 = b AND 192 \<longleftrightarrow> 128 \<le> b \<and> b \<le> 191"
    using eq [OF p(4)] ub unfolding byte_mask6 [symmetric] word_le_nat_alt by (simp, arith)
  show "18 = b AND 254 \<longleftrightarrow> b = 18 \<or> b = 19"
    using eq [OF p(5)] ub unfolding byte_mask1 [symmetric] word_unat_eq_iff by (simp, arith)
  show "252 = b AND 254 \<longleftrightarrow> b = 252 \<or> b = 253"
    using eq [OF p(6)] ub unfolding byte_mask1 [symmetric] word_unat_eq_iff by (simp, arith)
qed

section \<open>Shapes of addresses\<close>

lemma to4_4 [simp]: "to4 [a, b, c, d] = Some [a, b, c, d]"
  by (simp add: to4_def)

lemma to4_mapped [simp]: "length v = 4 \<Longrightarrow> to4 (v4_in_v6_prefix @ v) = Some v"
  by (simp add: to4_def v4_in_v6_prefix_def)

lemma to4_ipv4 [simp]: "to4 (ipv4 a b c d) = Some [a, b, c, d]"
  by (simp add: ipv4_def)

lemma length_ipv4 [simp]: "length (ipv4 a b c d) = 16"
  by (simp add: ipv4_def v4_in_v6_prefix_def)

lemma to4_length: "to4 ip = Some v \<Longrightarrow> length v = 4"
  by (auto simp: to4_def split: if_splits)

lemma to4_idem: "to4 ip = Some v \<Longrightarrow> to4 v = Some v"
  by (drule to4_length) (simp add: to4_def)

lemma to4_None_length: "well_formed_ip ip \<Longrightarrow> to4 ip = None \<Longrightarrow> length ip = 16"
  by (auto simp: well_formed_ip_def to4_def split: if_splits)

lemma to4_well_formed: "to4 ip = Some v \<Longrightarrow> well_formed_ip ip"
  by (auto simp: well_formed_ip_def to4_def split: if_splits)

lemma to16_None_iff: "to16 ip = None \<longleftrightarrow> \<not> well_formed_ip ip"
  by (auto simp: to16_def well_formed_ip_def)

lemma well_formed_simps [simp]:
  "well_formed_ip [a, b, c, d]" "well_formed_ip (ipv4 a b c d)" "\<not> well_formed_ip []"
  by (simp_all add: well_formed_ip_def)

text \<open>The verdict of a network depends on the IPv4 form alone, where there is one.\<close>

lemma contains_to4: "to4 ip = Some v \<Longrightarrow> contains n ip \<longleftrightarrow> contains n v"
  by (simp add: contains_def to4_idem split: prod.split)

lemma contains_v4 [net_simps]:
  "contains \<lparr>net_ip = [p, q, r, s], net_mask = [m1, m2, m3, m4]\<rparr> [a, b, c, d] \<longleftrightarrow>
     p AND m1 = a AND m1 \<and> q AND m2 = b AND m2 \<and> r AND m3 = c AND m3 \<and> s AND m4 = d AND m4"
  by (simp add: contains_def network_number_and_mask_def)

lemma contains_v4_v6 [net_simps]:
  "to4 ip = None \<Longrightarrow> length ip = 16 \<Longrightarrow>
     \<not> contains \<lparr>net_ip = [p, q, r, s], net_mask = [m1, m2, m3, m4]\<rparr> ip"
  by (simp add: contains_def network_number_and_mask_def)

lemma contains_v6_v4 [net_simps]:
  "to4 nip = None \<Longrightarrow> length nip = 16 \<Longrightarrow> length m = 16 \<Longrightarrow>
     \<not> contains \<lparr>net_ip = nip, net_mask = m\<rparr> [a, b, c, d]"
  by (simp add: contains_def network_number_and_mask_def)

lemma contains_v6 [net_simps]:
  "to4 nip = None \<Longrightarrow> length nip = 16 \<Longrightarrow> length m = 16 \<Longrightarrow> to4 ip = None \<Longrightarrow> length ip = 16 \<Longrightarrow>
     contains \<lparr>net_ip = nip, net_mask = m\<rparr> ip \<longleftrightarrow> map2 (AND) nip m = map2 (AND) ip m"
  by (simp add: contains_def network_number_and_mask_def)

text \<open>A network never contains a malformed address, other than the empty one.\<close>

lemma contains_length: "contains n ip \<Longrightarrow> ip \<noteq> [] \<Longrightarrow> well_formed_ip ip"
  by (auto simp: contains_def network_number_and_mask_def Let_def well_formed_ip_def
      to4_def split: if_splits option.splits prod.splits)

end
