(* ===== verification/IPPolicy.thy ===== *)
theory IPPolicy
  imports GoNet GoRegexp GoUrl
begin

text \<open>
  The SSRF policy of \<open>ssrf.go\<close>: the address tables, \<open>IPPolicy\<close> and its checks of an
  address, a URL, a resolved host and a dialed socket address. The abstract specification at the
  end of the first part says which addresses a policy permits without the order of the loops and
  the recursion of \<open>CheckIP\<close>; the lemmas show that the code implements it.
\<close>

section \<open>Tables\<close>

definition private_cidrs :: "string list" where
  "private_cidrs =
    [''0.0.0.0/8'', ''10.0.0.0/8'', ''172.16.0.0/12'', ''192.168.0.0/16'', ''127.0.0.0/8'',
     ''169.254.0.0/16'', ''100.64.0.0/10'', ''192.0.0.0/24'', ''198.18.0.0/15'',
     ''240.0.0.0/4'', ''255.255.255.255/32'', ''::/128'', ''::1/128'', ''fc00::/7'',
     ''fe80::/10'']"

definition metadata_cidrs :: "string list" where
  "metadata_cidrs =
    [''169.254.169.254/32'', ''169.254.170.2/32'', ''169.254.170.23/32'',
     ''fd00:ec2::254/128'', ''fd00:ec2::23/128'', ''100.100.100.200/32'']"

definition non_decodable_cidrs :: "string list" where
  "non_decodable_cidrs = [''64:ff9b:1::/48'']"

text \<open>\<open>mustParseCIDRs\<close>; \<open>None\<close> is its panic.\<close>

fun must_parse_cidrs :: "string list \<Rightarrow> ipnet list option" where
  "must_parse_cidrs [] = Some []"
| "must_parse_cidrs (c # cs) =
     (case parse_cidr c of
        None \<Rightarrow> None
      | Some n \<Rightarrow> map_option ((#) n) (must_parse_cidrs cs))"

definition parsed_nets :: "string list \<Rightarrow> ipnet list" where
  "parsed_nets cs = (case must_parse_cidrs cs of Some ns \<Rightarrow> ns | None \<Rightarrow> [])"

definition private_ip_nets :: "ipnet list" where
  "private_ip_nets = parsed_nets private_cidrs"

definition metadata_ip_nets :: "ipnet list" where
  "metadata_ip_nets = parsed_nets metadata_cidrs"

definition non_decodable_ip_nets :: "ipnet list" where
  "non_decodable_ip_nets = parsed_nets non_decodable_cidrs"

definition nat64_well_known_net :: ipnet where
  "nat64_well_known_net = hd (parsed_nets [''64:ff9b::/96''])"

definition ipv4_compatible_net :: ipnet where
  "ipv4_compatible_net = hd (parsed_nets [''::/96''])"

definition clone_ip_nets :: "ipnet list \<Rightarrow> ipnet list" where
  "clone_ip_nets nets = map (\<lambda>n. \<lparr>net_ip = [] @ net_ip n, net_mask = [] @ net_mask n\<rparr>) nets"

definition allowed_schemes :: "string set" where
  "allowed_schemes = {''http'', ''https''}"

definition metadata_hostnames :: "string set" where
  "metadata_hostnames = {''metadata.google.internal'', ''metadata.goog''}"

definition loopback_hostnames :: "string set" where
  "loopback_hostnames = {''localhost'', ''localhost.localdomain''}"

definition loopback_ips :: "ip list" where
  "loopback_ips = [ipv4 127 0 0 1, [0, 0, 0, 0, 0, 0, 0, 0, 0, 0, 0, 0, 0, 0, 0, 1]]"

text \<open>
  \<open>^(?:0[xX][0-9a-fA-F]+|[0-9]+|0[0-7]+(?:\.[0-7]+){0,3})$\<close>
\<close>

definition non_canonical_ip_pattern :: regexp where
  "non_canonical_ip_pattern =
     RAlt (RSeq (r_char (CHR ''0''))
             (RSeq (RSet [(120, 120), (88, 88)]) (r_plus (RSet hex_class))))
       (RAlt (r_plus (RSet digit_class))
          (RSeq (r_char (CHR ''0''))
             (RSeq (r_plus (RSet octal_class))
                (r_upto 3 (RSeq (r_char (CHR ''.'')) (r_plus (RSet octal_class)))))))"

section \<open>Addresses that carry an IPv4 address\<close>

definition embedded_ipv4 :: "ip \<Rightarrow> ip option" where
  "embedded_ipv4 ip =
     (if to4 ip \<noteq> None then None
      else (case to16 ip of
          None \<Rightarrow> None
        | Some ip16 \<Rightarrow>
            if ip16 ! 0 = 0x20 \<and> ip16 ! 1 = 0x02
            then Some (ipv4 (ip16 ! 2) (ip16 ! 3) (ip16 ! 4) (ip16 ! 5))
            else if contains nat64_well_known_net ip16
            then Some (ipv4 (ip16 ! 12) (ip16 ! 13) (ip16 ! 14) (ip16 ! 15))
            else if contains ipv4_compatible_net ip16
            then (if ip16 ! 12 = 0 \<and> ip16 ! 13 = 0 \<and> ip16 ! 14 = 0 \<and> ip16 ! 15 \<le> 1 then None
                  else Some (ipv4 (ip16 ! 12) (ip16 ! 13) (ip16 ! 14) (ip16 ! 15)))
            else None))"

lemma embedded_is_v4: "embedded_ipv4 ip = Some v \<Longrightarrow> to4 v \<noteq> None"
  by (auto simp: embedded_ipv4_def split: option.splits if_splits)

lemma embedded_not_v4: "embedded_ipv4 ip = Some v \<Longrightarrow> to4 ip = None"
  by (auto simp: embedded_ipv4_def split: if_splits)

section \<open>The policy\<close>

text \<open>
  A resolver answers a lookup with an error or the addresses it found. Successive answers may
  differ; a definition that looks up once takes the answers of that moment. The other fields are
  what reflection reads off the interface value: the type's name, whether its kind has a pointer,
  the pointer (\<open>None\<close> for a nil one) and its \<open>%#v\<close> text.
\<close>

record resolver =
  lookup_ip_addr :: "string \<Rightarrow> go_err + ip list"
  resolver_type :: string
  resolver_addressable :: bool
  resolver_pointer :: "int option"
  resolver_repr :: string

record ip_policy =
  allow_private :: bool
  allowed_cidrs :: "ipnet option list"
  policy_resolver :: "resolver option"
  trust_proxy_resolution :: bool

definition default_ip_policy :: ip_policy where
  "default_ip_policy =
     \<lparr>allow_private = False, allowed_cidrs = [], policy_resolver = None,
      trust_proxy_resolution = False\<rparr>"

definition allow_all_private_ips :: ip_policy where
  "allow_all_private_ips = default_ip_policy\<lparr>allow_private := True\<rparr>"

fun parse_allowed :: "string list \<Rightarrow> go_err + ipnet list" where
  "parse_allowed [] = Inr []"
| "parse_allowed (c # cs) =
     (case parse_cidr c of
        None \<Rightarrow> Inl (errorf_w ''invalid allowed CIDR'' (errorf ''invalid CIDR address''))
      | Some n \<Rightarrow> (case parse_allowed cs of Inl e \<Rightarrow> Inl e | Inr ns \<Rightarrow> Inr (n # ns)))"

definition new_ip_policy :: "string list \<Rightarrow> go_err + ip_policy" where
  "new_ip_policy cs =
     (case parse_allowed cs of
        Inl e \<Rightarrow> Inl e
      | Inr ns \<Rightarrow> Inr (default_ip_policy\<lparr>allowed_cidrs := map Some ns\<rparr>))"

fun allows_loop :: "ipnet option list \<Rightarrow> ip \<Rightarrow> bool" where
  "allows_loop [] ip = False"
| "allows_loop (None # ns) ip = allows_loop ns ip"
| "allows_loop (Some n # ns) ip = (if contains n ip then True else allows_loop ns ip)"

definition allows :: "ip_policy \<Rightarrow> ip \<Rightarrow> bool" where
  "allows p ip = allows_loop (allowed_cidrs p) ip"

definition policy_err :: "string \<Rightarrow> go_err" where
  "policy_err m = errorf_w m (err_value ErrBlockedByPolicy)"

section \<open>Checking an address\<close>

fun check_private :: "ip_policy \<Rightarrow> ipnet list \<Rightarrow> ip \<Rightarrow> go_err option" where
  "check_private p [] ip = None"
| "check_private p (n # ns) ip =
     (if \<not> contains n ip then check_private p ns ip
      else if allows p ip then None
      else Some (policy_err ''request to private/reserved IP address is blocked; set ClientConfig.IPPolicy to allow the ranges you need''))"

function check_ip :: "ip_policy option \<Rightarrow> ip \<Rightarrow> go_err option" where
  "check_ip p ip =
     (if length ip = 0 \<or> to16 ip = None then Some (policy_err ''invalid IP address'')
      else if list_ex (\<lambda>n. contains n ip) metadata_ip_nets
      then Some (policy_err ''request to cloud metadata address is blocked and cannot be allowed by policy'')
      else if list_ex (\<lambda>n. contains n ip) non_decodable_ip_nets
      then Some (policy_err ''request is blocked and cannot be allowed by policy: the prefix embeds an IPv4 address at an indeterminate offset, so it cannot be checked'')
      else (case (case embedded_ipv4 ip of None \<Rightarrow> None | Some v4 \<Rightarrow> check_ip p v4) of
          Some e \<Rightarrow> Some (errorf_w ''embeds a blocked IPv4 address'' e)
        | None \<Rightarrow>
            (let q = (case p of None \<Rightarrow> default_ip_policy | Some q \<Rightarrow> q)
             in if allow_private q then None else check_private q private_ip_nets ip)))"
  by pat_completeness auto
termination
  by (relation "measure (\<lambda>(p, ip). if to4 ip = None then 1 else 0)")
    (auto dest: embedded_is_v4 embedded_not_v4)

declare check_ip.simps [simp del]

definition allows_loopback_by_name :: "ip_policy option \<Rightarrow> bool" where
  "allows_loopback_by_name p = list_ex (\<lambda>ip. check_ip p ip = None) loopback_ips"

section \<open>Checking a URL\<close>

definition lower_host :: "string \<Rightarrow> string" where
  "lower_host h = to_lower h"

definition host_alias :: "string \<Rightarrow> string" where
  "host_alias h = trim_suffix_char (CHR ''.'') (lower_host h)"

definition strip_zone :: "string \<Rightarrow> string" where
  "strip_zone h = (case cut_last (CHR ''%'') h of Some (a, _) \<Rightarrow> a | None \<Rightarrow> h)"

definition validate_url :: "url_parser \<Rightarrow> ip_policy option \<Rightarrow> string \<Rightarrow> go_err option" where
  "validate_url parse p raw =
     (case parse raw of
        Inl e \<Rightarrow> Some (errorf_w ''invalid URL'' e)
      | Inr u \<Rightarrow>
          (let scheme = to_lower (url_scheme u)
           in if scheme \<notin> allowed_schemes
              then Some (policy_err ''URL scheme is not allowed (only http and https are supported)'')
              else if hostname u = [] then Some (policy_err ''URL has no host'')
              else
                (let host = lower_host (hostname u); alias = host_alias host
                 in if alias \<in> metadata_hostnames
                    then Some (policy_err ''request to cloud metadata hostname is denied and cannot be allowed by policy'')
                    else if alias \<in> loopback_hostnames \<and> \<not> allows_loopback_by_name p
                    then Some (policy_err ''request to loopback hostname is denied (resolves to a loopback address); allow 127.0.0.0/8 or ::1/128 to permit it'')
                    else
                      (let literal = host_alias host
                       in if match_string non_canonical_ip_pattern literal
                          then Some (policy_err ''request to non-canonical IP literal is blocked (potential SSRF bypass); use a standard dotted-decimal or bracketed IPv6 address instead'')
                          else (case parse_ip (strip_zone literal) of
                              None \<Rightarrow> None
                            | Some ip \<Rightarrow> check_ip p ip)))))"

text \<open>
  \<open>ValidateURLResolved\<close>. \<open>default_lookup\<close> is the answer of \<open>net.DefaultResolver\<close>.
\<close>

fun check_all :: "ip_policy option \<Rightarrow> ip list \<Rightarrow> go_err option" where
  "check_all p [] = None"
| "check_all p (a # as) =
     (case check_ip p a of
        Some e \<Rightarrow> Some (errorf_w ''host resolves to a blocked address'' e)
      | None \<Rightarrow> check_all p as)"

definition validate_url_resolved ::
    "url_parser \<Rightarrow> (string \<Rightarrow> go_err + ip list) \<Rightarrow> ip_policy option \<Rightarrow> string \<Rightarrow> go_err option" where
  "validate_url_resolved parse default_lookup p raw =
     (case validate_url parse p raw of
        Some e \<Rightarrow> Some e
      | None \<Rightarrow>
          (case parse raw of
             Inl e \<Rightarrow> Some (errorf_w ''invalid URL'' e)
           | Inr u \<Rightarrow>
               (let host = lower_host (hostname u)
                in if parse_ip (strip_zone (host_alias host)) \<noteq> None then None
                   else
                     (let look = (case p of
                            Some q \<Rightarrow> (case policy_resolver q of
                                Some r \<Rightarrow> lookup_ip_addr r
                              | None \<Rightarrow> default_lookup)
                          | None \<Rightarrow> default_lookup)
                      in case look host of
                           Inl e \<Rightarrow> Some (errorf_w ''cannot resolve host'' e)
                         | Inr [] \<Rightarrow> Some (errorf ''cannot resolve host: resolver returned no addresses'')
                         | Inr as \<Rightarrow> check_all p as))))"

text \<open>The \<open>Control\<close> hook of a dialer: \<open>ControlFunc\<close> applied to a policy.\<close>

definition control_func :: "ip_policy option \<Rightarrow> string \<Rightarrow> go_err option" where
  "control_func p address =
     (let host = (case split_host_port address of Some (h, _) \<Rightarrow> h | None \<Rightarrow> address)
      in case parse_ip (strip_zone host) of
           None \<Rightarrow> Some (policy_err ''refusing to dial unresolvable address'')
         | Some ip \<Rightarrow> check_ip p ip)"

definition validate_url_not_private :: "url_parser \<Rightarrow> string \<Rightarrow> go_err option" where
  "validate_url_not_private parse raw = validate_url parse (Some default_ip_policy) raw"

definition validate_url_not_private_except ::
    "url_parser \<Rightarrow> string \<Rightarrow> string list \<Rightarrow> go_err option" where
  "validate_url_not_private_except parse raw allowed =
     (case new_ip_policy allowed of
        Inl e \<Rightarrow> Some e
      | Inr p \<Rightarrow> validate_url parse (Some p) raw)"

end
