(* ===== verification/PolicySpec.thy ===== *)
theory PolicySpec
  imports IPPolicy
begin

text \<open>
  What the policy promises, stated on addresses: which octets are reserved, which addresses
  reach a metadata endpoint, and which a policy permits. The theorems show that \<open>CheckIP\<close>
  decides exactly these sets.
\<close>

section \<open>The tables, evaluated\<close>

abbreviation "v4net a b c d m1 m2 m3 m4 \<equiv> \<lparr>net_ip = [a, b, c, d], net_mask = [m1, m2, m3, m4]\<rparr>"

lemma private_ip_nets_eq: "private_ip_nets =
  [v4net 0 0 0 0 255 0 0 0, v4net 10 0 0 0 255 0 0 0, v4net 172 16 0 0 255 240 0 0,
   v4net 192 168 0 0 255 255 0 0, v4net 127 0 0 0 255 0 0 0, v4net 169 254 0 0 255 255 0 0,
   v4net 100 64 0 0 255 192 0 0, v4net 192 0 0 0 255 255 255 0, v4net 198 18 0 0 255 254 0 0,
   v4net 240 0 0 0 240 0 0 0, v4net 255 255 255 255 255 255 255 255,
   \<lparr>net_ip = [0,0,0,0,0,0,0,0,0,0,0,0,0,0,0,0],
    net_mask = [255,255,255,255,255,255,255,255,255,255,255,255,255,255,255,255]\<rparr>,
   \<lparr>net_ip = [0,0,0,0,0,0,0,0,0,0,0,0,0,0,0,1],
    net_mask = [255,255,255,255,255,255,255,255,255,255,255,255,255,255,255,255]\<rparr>,
   \<lparr>net_ip = [252,0,0,0,0,0,0,0,0,0,0,0,0,0,0,0],
    net_mask = [254,0,0,0,0,0,0,0,0,0,0,0,0,0,0,0]\<rparr>,
   \<lparr>net_ip = [254,128,0,0,0,0,0,0,0,0,0,0,0,0,0,0],
    net_mask = [255,192,0,0,0,0,0,0,0,0,0,0,0,0,0,0]\<rparr>]"
  by code_simp

lemma metadata_ip_nets_eq: "metadata_ip_nets =
  [v4net 169 254 169 254 255 255 255 255, v4net 169 254 170 2 255 255 255 255,
   v4net 169 254 170 23 255 255 255 255,
   \<lparr>net_ip = [253,0,14,194,0,0,0,0,0,0,0,0,0,0,2,84],
    net_mask = [255,255,255,255,255,255,255,255,255,255,255,255,255,255,255,255]\<rparr>,
   \<lparr>net_ip = [253,0,14,194,0,0,0,0,0,0,0,0,0,0,0,35],
    net_mask = [255,255,255,255,255,255,255,255,255,255,255,255,255,255,255,255]\<rparr>,
   v4net 100 100 100 200 255 255 255 255]"
  by code_simp

lemma non_decodable_ip_nets_eq: "non_decodable_ip_nets =
  [\<lparr>net_ip = [0,100,255,155,0,1,0,0,0,0,0,0,0,0,0,0],
    net_mask = [255,255,255,255,255,255,0,0,0,0,0,0,0,0,0,0]\<rparr>]"
  by code_simp

lemma nat64_well_known_net_eq: "nat64_well_known_net =
  \<lparr>net_ip = [0,100,255,155,0,0,0,0,0,0,0,0,0,0,0,0],
   net_mask = [255,255,255,255,255,255,255,255,255,255,255,255,0,0,0,0]\<rparr>"
  by code_simp

lemma ipv4_compatible_net_eq: "ipv4_compatible_net =
  \<lparr>net_ip = [0,0,0,0,0,0,0,0,0,0,0,0,0,0,0,0],
   net_mask = [255,255,255,255,255,255,255,255,255,255,255,255,0,0,0,0]\<rparr>"
  by code_simp

section \<open>Reserved addresses\<close>

text \<open>The reserved IPv4 blocks, as conditions on the octets.\<close>

definition reserved_v4 :: "byte \<Rightarrow> byte \<Rightarrow> byte \<Rightarrow> byte \<Rightarrow> bool" where
  "reserved_v4 a b c d \<longleftrightarrow>
     a = 0 \<or> a = 10 \<or> a = 127
     \<or> (a = 172 \<and> 16 \<le> b \<and> b \<le> 31)
     \<or> (a = 192 \<and> b = 168)
     \<or> (a = 169 \<and> b = 254)
     \<or> (a = 100 \<and> 64 \<le> b \<and> b \<le> 127)
     \<or> (a = 192 \<and> b = 0 \<and> c = 0)
     \<or> (a = 198 \<and> (b = 18 \<or> b = 19))
     \<or> 240 \<le> a"

abbreviation "nat64_prefix \<equiv> [0, 0x64, 0xff, 0x9b, 0, 0, 0, 0, 0, 0, 0, 0] :: byte list"
abbreviation "v4_compat_prefix \<equiv> [0, 0, 0, 0, 0, 0, 0, 0, 0, 0, 0, 0] :: byte list"
abbreviation "v6_unspecified \<equiv> v4_compat_prefix @ [0, 0, 0, 0]"
abbreviation "v6_loopback \<equiv> v4_compat_prefix @ [0, 0, 0, 1]"
abbreviation "nat64_local_prefix \<equiv> [0, 0x64, 0xff, 0x9b, 0, 1] :: byte list"

text \<open>
  The IPv4 address an address stands for: its own, the mapped one, or the one carried by 6to4
  (\<open>2002:V4::/48\<close>), NAT64 (\<open>64:ff9b::V4\<close>) or the IPv4-compatible form.
\<close>

definition carried_v4 :: "ip \<Rightarrow> (byte \<times> byte \<times> byte \<times> byte) option" where
  "carried_v4 ip =
     (if length ip = 4 then Some (ip ! 0, ip ! 1, ip ! 2, ip ! 3)
      else if length ip \<noteq> 16 then None
      else if take 2 ip = [0x20, 0x02] then Some (ip ! 2, ip ! 3, ip ! 4, ip ! 5)
      else if take 12 ip = v4_in_v6_prefix \<or> take 12 ip = nat64_prefix
        \<or> take 12 ip = v4_compat_prefix
      then Some (ip ! 12, ip ! 13, ip ! 14, ip ! 15)
      else None)"

definition reserved :: "ip \<Rightarrow> bool" where
  "reserved ip \<longleftrightarrow>
     (case carried_v4 ip of
        Some (a, b, c, d) \<Rightarrow> reserved_v4 a b c d
      | None \<Rightarrow> ip ! 0 = 0xfc \<or> ip ! 0 = 0xfd
          \<or> (ip ! 0 = 0xfe \<and> 0x80 \<le> ip ! 1 \<and> ip ! 1 \<le> 0xbf)
          \<or> take 6 ip = nat64_local_prefix)"

text \<open>The instance-metadata endpoints, by any of the encodings.\<close>

definition metadata_target :: "ip \<Rightarrow> bool" where
  "metadata_target ip \<longleftrightarrow>
     (case carried_v4 ip of
        Some v \<Rightarrow> v \<in> {(169, 254, 169, 254), (169, 254, 170, 2), (169, 254, 170, 23),
                      (100, 100, 100, 200)}
      | None \<Rightarrow> ip = [0xfd, 0, 0x0e, 0xc2, 0, 0, 0, 0, 0, 0, 0, 0, 0, 0, 2, 0x54]
          \<or> ip = [0xfd, 0, 0x0e, 0xc2, 0, 0, 0, 0, 0, 0, 0, 0, 0, 0, 0, 0x23])"

section \<open>What a policy permits\<close>

definition in_nets :: "ipnet list \<Rightarrow> ip \<Rightarrow> bool" where
  "in_nets ns ip \<longleftrightarrow> list_ex (\<lambda>n. contains n ip) ns"

definition effective_policy :: "ip_policy option \<Rightarrow> ip_policy" where
  "effective_policy p = (case p of None \<Rightarrow> default_ip_policy | Some q \<Rightarrow> q)"

text \<open>An address is judged as itself and as the IPv4 address it embeds.\<close>

definition judged :: "ip \<Rightarrow> ip list" where
  "judged ip = ip # (case embedded_ipv4 ip of None \<Rightarrow> [] | Some v \<Rightarrow> [v])"

definition clears :: "ip_policy \<Rightarrow> ip \<Rightarrow> bool" where
  "clears q a \<longleftrightarrow> \<not> in_nets metadata_ip_nets a \<and> \<not> in_nets non_decodable_ip_nets a
     \<and> (allow_private q \<or> \<not> in_nets private_ip_nets a \<or> allows q a)"

definition permitted :: "ip_policy \<Rightarrow> ip \<Rightarrow> bool" where
  "permitted q ip \<longleftrightarrow> well_formed_ip ip \<and> list_all (clears q) (judged ip)"

lemma check_private_iff:
  "check_private p ns ip = None \<longleftrightarrow> \<not> in_nets ns ip \<or> allows p ip"
  by (induction ns) (auto simp: in_nets_def)

lemma check_private_blocked: "check_private p ns ip = Some e \<Longrightarrow> errors_is e ErrBlockedByPolicy"
  by (induction ns) (auto simp: policy_err_def split: if_splits)

lemma embedded_embedded: "embedded_ipv4 ip = Some v \<Longrightarrow> embedded_ipv4 v = None"
  using embedded_is_v4 embedded_not_v4 by fastforce

lemma embedded_well_formed: "embedded_ipv4 ip = Some v \<Longrightarrow> well_formed_ip v"
  using embedded_is_v4 to4_well_formed by blast

text \<open>One unfolding of \<open>CheckIP\<close>, in the terms of the specification.\<close>

lemma check_ip_unfold:
  "check_ip p ip = None \<longleftrightarrow>
     well_formed_ip ip \<and> clears (effective_policy p) ip
     \<and> (case embedded_ipv4 ip of None \<Rightarrow> True | Some v \<Rightarrow> check_ip p v = None)"
proof -
  have "length ip = 0 \<or> to16 ip = None \<longleftrightarrow> \<not> well_formed_ip ip"
    by (auto simp: to16_None_iff)
  then show ?thesis
    by (subst check_ip.simps)
      (auto simp: in_nets_def clears_def effective_policy_def Let_def check_private_iff
        split: option.splits)
qed

lemma length_eq_16E:
  assumes "length xs = 16"
  obtains b0 b1 b2 b3 b4 b5 b6 b7 b8 b9 b10 b11 b12 b13 b14 b15 where
    "xs = [b0, b1, b2, b3, b4, b5, b6, b7, b8, b9, b10, b11, b12, b13, b14, b15]"
  using assms by (auto simp: numeral_eq_Suc length_Suc_conv)

lemma check_ip_blocked: "check_ip p ip = Some e \<Longrightarrow> errors_is e ErrBlockedByPolicy"
proof (induction p ip arbitrary: e rule: check_ip.induct)
  case (1 p ip)
  then show ?case
    unfolding check_ip.simps [of p ip]
    by (auto simp: policy_err_def Let_def split: if_splits option.splits dest: check_private_blocked)
qed

text \<open>The recursion of \<open>CheckIP\<close> goes one level deep.\<close>

lemma check_ip_permitted: "check_ip p ip = None \<longleftrightarrow> permitted (effective_policy p) ip"
proof (cases "embedded_ipv4 ip")
  case None
  then show ?thesis
    by (subst check_ip_unfold) (simp add: permitted_def judged_def)
next
  case (Some v)
  then have "check_ip p v = None \<longleftrightarrow> clears (effective_policy p) v"
    by (subst check_ip_unfold) (simp add: embedded_embedded embedded_well_formed)
  with Some show ?thesis
    by (subst check_ip_unfold) (auto simp: permitted_def judged_def)
qed

section \<open>The tables as sets\<close>

definition metadata_v4 :: "(byte \<times> byte \<times> byte \<times> byte) set" where
  "metadata_v4 =
    {(169, 254, 169, 254), (169, 254, 170, 2), (169, 254, 170, 23), (100, 100, 100, 200)}"

lemma in_private_v4: "in_nets private_ip_nets [a, b, c, d] \<longleftrightarrow> reserved_v4 a b c d"
  unfolding in_nets_def private_ip_nets_eq
  by (auto simp: net_simps reserved_v4_def to4_def v4_in_v6_prefix_def)

lemma in_metadata_v4:
  "in_nets metadata_ip_nets [a, b, c, d] \<longleftrightarrow> (a, b, c, d) \<in> metadata_v4"
  unfolding in_nets_def metadata_ip_nets_eq
  by (auto simp: net_simps to4_def v4_in_v6_prefix_def metadata_v4_def)

lemma in_non_decodable_v4: "\<not> in_nets non_decodable_ip_nets [a, b, c, d]"
  unfolding in_nets_def non_decodable_ip_nets_eq
  by (simp add: net_simps to4_def v4_in_v6_prefix_def)

lemma in_private_v6:
  assumes "length ip = 16" "to4 ip = None"
  shows "in_nets private_ip_nets ip \<longleftrightarrow> ip = v6_unspecified \<or> ip = v6_loopback
    \<or> ip ! 0 = 0xfc \<or> ip ! 0 = 0xfd \<or> (ip ! 0 = 0xfe \<and> 0x80 \<le> ip ! 1 \<and> ip ! 1 \<le> 0xbf)"
  using assms unfolding in_nets_def private_ip_nets_eq
  by (elim length_eq_16E) (auto simp: net_simps to4_def v4_in_v6_prefix_def)

lemma in_metadata_v6:
  assumes "length ip = 16" "to4 ip = None"
  shows "in_nets metadata_ip_nets ip \<longleftrightarrow>
    ip = [0xfd, 0, 0x0e, 0xc2, 0, 0, 0, 0, 0, 0, 0, 0, 0, 0, 2, 0x54]
    \<or> ip = [0xfd, 0, 0x0e, 0xc2, 0, 0, 0, 0, 0, 0, 0, 0, 0, 0, 0, 0x23]"
  using assms unfolding in_nets_def metadata_ip_nets_eq
  by (elim length_eq_16E) (auto simp: net_simps to4_def v4_in_v6_prefix_def)

lemma in_non_decodable_v6:
  assumes "length ip = 16" "to4 ip = None"
  shows "in_nets non_decodable_ip_nets ip \<longleftrightarrow> take 6 ip = nat64_local_prefix"
  using assms unfolding in_nets_def non_decodable_ip_nets_eq
  by (elim length_eq_16E) (auto simp: net_simps to4_def v4_in_v6_prefix_def)

lemma in_nat64_net:
  assumes "length ip = 16" "to4 ip = None"
  shows "contains nat64_well_known_net ip \<longleftrightarrow> take 12 ip = nat64_prefix"
  using assms unfolding nat64_well_known_net_eq
  by (elim length_eq_16E) (auto simp: net_simps to4_def v4_in_v6_prefix_def)

lemma in_compatible_net:
  assumes "length ip = 16" "to4 ip = None"
  shows "contains ipv4_compatible_net ip \<longleftrightarrow> take 12 ip = v4_compat_prefix"
  using assms unfolding ipv4_compatible_net_eq
  by (elim length_eq_16E) (auto simp: net_simps to4_def v4_in_v6_prefix_def)

section \<open>Embedded addresses\<close>

lemma byte_le_1: "(x :: byte) \<le> 1 \<longleftrightarrow> x = 0 \<or> x = 1"
  by (simp add: word_le_nat_alt word_unat_eq_iff) arith

lemma take_2_16: "length ip = 16 \<Longrightarrow> take 2 ip = [a, b] \<longleftrightarrow> ip ! 0 = a \<and> ip ! 1 = b"
  by (elim length_eq_16E) simp

lemma split_12_16:
  "length ip = 16 \<Longrightarrow> ip = take 12 ip @ [ip ! 12, ip ! 13, ip ! 14, ip ! 15]"
  by (elim length_eq_16E) simp

text \<open>The unspecified and the loopback address lie in the compatible prefix but embed nothing.\<close>

definition special_v6 :: "ip \<Rightarrow> bool" where
  "special_v6 ip \<longleftrightarrow> ip = v6_unspecified \<or> ip = v6_loopback"

lemma compatible_small:
  assumes l: "length ip = 16" and "take 12 ip = v4_compat_prefix"
  shows "ip ! 12 = 0 \<and> ip ! 13 = 0 \<and> ip ! 14 = 0 \<and> ip ! 15 \<le> 1 \<longleftrightarrow> special_v6 ip"
  using split_12_16 [OF l] assms(2) unfolding byte_le_1 special_v6_def by auto

lemma special_v6_prefix: "special_v6 ip \<Longrightarrow> take 12 ip = v4_compat_prefix \<and> ip ! 0 = 0"
  by (auto simp: special_v6_def)

lemma embedded_v6:
  assumes l: "length ip = 16" and n: "to4 ip = None"
  shows "embedded_ipv4 ip =
    (if special_v6 ip then None
     else map_option (\<lambda>(a, b, c, d). ipv4 a b c d) (carried_v4 ip))"
proof -
  from l have t16: "to16 ip = Some ip" by (simp add: to16_def)
  from l n have nm: "take 12 ip \<noteq> v4_in_v6_prefix" by (auto simp: to4_def split: if_splits)
  have c: "carried_v4 ip =
      (if ip ! 0 = 0x20 \<and> ip ! 1 = 0x02 then Some (ip ! 2, ip ! 3, ip ! 4, ip ! 5)
       else if take 12 ip = nat64_prefix \<or> take 12 ip = v4_compat_prefix
       then Some (ip ! 12, ip ! 13, ip ! 14, ip ! 15) else None)"
    using l nm by (simp add: carried_v4_def take_2_16 [OF l])
  show ?thesis
  proof (cases "take 12 ip = v4_compat_prefix")
    case True
    with split_12_16 [OF l] have "ip ! 0 = 0" by (metis nth_append_left nth_Cons_0 append_Cons)
    with True show ?thesis
      using n compatible_small [OF l True]
      by (simp add: c embedded_ipv4_def in_nat64_net [OF l n] in_compatible_net [OF l n] t16)
  next
    case False
    then have "\<not> special_v6 ip" using special_v6_prefix by blast
    with False show ?thesis
      using n by (simp add: c embedded_ipv4_def in_nat64_net [OF l n] in_compatible_net [OF l n] t16)
  qed
qed

section \<open>Verdicts\<close>

lemma in_nets_to4: "to4 ip = Some v \<Longrightarrow> in_nets ns ip \<longleftrightarrow> in_nets ns v"
  by (simp add: in_nets_def contains_to4)

lemma allows_iff: "allows p ip \<longleftrightarrow> (\<exists>n. Some n \<in> set (allowed_cidrs p) \<and> contains n ip)"
proof -
  have "allows_loop ns ip \<longleftrightarrow> (\<exists>n. Some n \<in> set ns \<and> contains n ip)" for ns
    by (induction ns ip rule: allows_loop.induct) auto
  then show ?thesis by (simp add: allows_def)
qed

lemma clears_to4: "to4 ip = Some v \<Longrightarrow> clears q ip \<longleftrightarrow> clears q v"
  by (simp add: clears_def in_nets_to4 [of ip v] allows_iff contains_to4 [of ip v])

lemma permitted_to4: "to4 ip = Some v \<Longrightarrow> permitted q ip \<longleftrightarrow> clears q v"
  by (simp add: permitted_def judged_def embedded_ipv4_def to4_well_formed clears_to4)

lemma permitted_v6:
  "length ip = 16 \<Longrightarrow> to4 ip = None \<Longrightarrow> permitted q ip \<longleftrightarrow> clears q ip \<and>
     (case carried_v4 ip of None \<Rightarrow> True
      | Some (a, b, c, d) \<Rightarrow> special_v6 ip \<or> clears q [a, b, c, d])"
  unfolding permitted_def judged_def embedded_v6
  by (auto simp: well_formed_ip_def clears_to4 [OF to4_ipv4] split: option.splits)

lemma clears_v4: "clears q [a, b, c, d] \<longleftrightarrow> (a, b, c, d) \<notin> metadata_v4 \<and>
   (allow_private q \<or> \<not> reserved_v4 a b c d \<or> allows q [a, b, c, d])"
  by (simp add: clears_def in_private_v4 in_metadata_v4 in_non_decodable_v4)

lemma metadata_reserved: "(a, b, c, d) \<in> metadata_v4 \<Longrightarrow> reserved_v4 a b c d"
  by (auto simp: metadata_v4_def reserved_v4_def)

lemma default_policy_simps [simp]:
  "\<not> allows default_ip_policy ip" "\<not> allow_private default_ip_policy"
  "allow_private allow_all_private_ips"
  by (simp_all add: allows_iff default_ip_policy_def allow_all_private_ips_def)

lemma carried_to4:
  assumes "to4 ip = Some v"
  obtains a b c d where "v = [a, b, c, d]" "carried_v4 ip = Some (a, b, c, d)"
proof -
  obtain a b c d where v: "v = [a, b, c, d]"
    using to4_length [OF assms] by (auto simp: length_eq_4_conv)
  have "carried_v4 ip = Some (a, b, c, d)"
  proof (cases "length ip = 4")
    case True
    with assms v show ?thesis by (simp add: to4_def carried_v4_def)
  next
    case False
    with assms v have "length ip = 16" "take 12 ip = v4_in_v6_prefix" "drop 12 ip = [a, b, c, d]"
      by (auto simp: to4_def split: if_splits)
    then have "ip = v4_in_v6_prefix @ [a, b, c, d]" by (metis append_take_drop_id)
    then show ?thesis by (simp add: carried_v4_def v4_in_v6_prefix_def)
  qed
  with v show ?thesis by (rule that)
qed

lemma carried_special:
  assumes "special_v6 ip"
  obtains d where "carried_v4 ip = Some (0, 0, 0, d)"
  using assms by (auto simp: special_v6_def carried_v4_def)

lemma carried_not_v6_block:
  assumes l: "length ip = 16" and n: "to4 ip = None" and c: "carried_v4 ip = Some v"
  shows "ip ! 0 = 0x20 \<or> ip ! 0 = 0" and "take 6 ip \<noteq> nat64_local_prefix"
proof -
  have p: "take 2 ip = [0x20, 0x02] \<or> take 12 ip = v4_in_v6_prefix \<or> take 12 ip = nat64_prefix
      \<or> take 12 ip = v4_compat_prefix"
    using l c by (auto simp: carried_v4_def split: if_splits)
  from l p show "ip ! 0 = 0x20 \<or> ip ! 0 = 0" and "take 6 ip \<noteq> nat64_local_prefix"
    by (elim length_eq_16E; auto simp: v4_in_v6_prefix_def)+
qed

lemma clears_v6:
  assumes l: "length ip = 16" and n: "to4 ip = None" and s: "\<not> special_v6 ip"
  shows "clears q ip \<longleftrightarrow>
     (case carried_v4 ip of
        Some _ \<Rightarrow> True
      | None \<Rightarrow> \<not> metadata_target ip \<and> take 6 ip \<noteq> nat64_local_prefix
          \<and> (allow_private q \<or> allows q ip
             \<or> \<not> (ip ! 0 = 0xfc \<or> ip ! 0 = 0xfd \<or> (ip ! 0 = 0xfe \<and> 0x80 \<le> ip ! 1 \<and> ip ! 1 \<le> 0xbf))))"
proof (cases "carried_v4 ip")
  case None
  with s show ?thesis
    by (auto simp: clears_def in_private_v6 [OF l n] in_metadata_v6 [OF l n]
        in_non_decodable_v6 [OF l n] metadata_target_def special_v6_def)
next
  case (Some v)
  from carried_not_v6_block [OF l n Some] s Some show ?thesis
    by (auto simp: clears_def in_private_v6 [OF l n] in_metadata_v6 [OF l n]
        in_non_decodable_v6 [OF l n] special_v6_def)
qed

lemma clears_special:
  assumes "special_v6 ip"
  shows "clears q ip \<longleftrightarrow> allow_private q \<or> allows q ip"
proof -
  from assms have v6: "length ip = 16" "to4 ip = None"
    by (auto simp: special_v6_def to4_def v4_in_v6_prefix_def)
  from assms show ?thesis
    unfolding clears_def in_private_v6 [OF v6] in_metadata_v6 [OF v6] in_non_decodable_v6 [OF v6]
    by (auto simp: special_v6_def)
qed

lemma metadata_target_v4:
  "carried_v4 ip = Some v \<Longrightarrow> metadata_target ip \<longleftrightarrow> v \<in> metadata_v4"
  by (simp add: metadata_target_def metadata_v4_def)

text \<open>
  Every policy, on every shape of address. The last three cases are the 16-byte addresses that are
  not IPv4-mapped.
\<close>

lemma permitted_cases:
  assumes "well_formed_ip ip"
  obtains
    (v4) a b c d where "carried_v4 ip = Some (a, b, c, d)" "\<not> special_v6 ip"
      "\<And>q. permitted q ip \<longleftrightarrow> clears q [a, b, c, d]"
  | (special) d where "special_v6 ip" "carried_v4 ip = Some (0, 0, 0, d)"
      "\<And>q. permitted q ip \<longleftrightarrow> allow_private q \<or> allows q ip"
  | (v6) "carried_v4 ip = None" "\<And>q. permitted q ip \<longleftrightarrow> clears q ip"
      "length ip = 16" "to4 ip = None" "\<not> special_v6 ip"
proof (cases "to4 ip")
  case (Some v)
  from carried_to4 [OF Some] obtain a b c d
    where v: "v = [a, b, c, d]" and c: "carried_v4 ip = Some (a, b, c, d)" .
  from Some have "\<not> special_v6 ip"
    by (auto simp: special_v6_def to4_def v4_in_v6_prefix_def)
  with v4 [OF c] permitted_to4 [OF Some] v show ?thesis by auto
next
  case None
  with assms have l: "length ip = 16" by (rule to4_None_length)
  show ?thesis
  proof (cases "special_v6 ip")
    case True
    from carried_special [OF True] obtain d where c: "carried_v4 ip = Some (0, 0, 0, d)" .
    with special [OF True c] True show ?thesis
      by (auto simp: permitted_v6 [OF l None] clears_special)
  next
    case False
    show ?thesis
    proof (cases "carried_v4 ip")
      case c: None
      with v6 [OF c] l None False show ?thesis by (auto simp: permitted_v6 [OF l None])
    next
      case (Some w)
      obtain a b c d where w: "w = (a, b, c, d)" by (cases w)
      with Some v4 [of a b c d] False show ?thesis
        by (auto simp: permitted_v6 [OF l None] clears_v6 [OF l None False])
    qed
  qed
qed

lemma default_permitted: "permitted default_ip_policy ip \<longleftrightarrow> well_formed_ip ip \<and> \<not> reserved ip"
proof (cases "well_formed_ip ip")
  case True
  then show ?thesis
  proof (cases rule: permitted_cases)
    case (v4 a b c d)
    then show ?thesis using True metadata_reserved [of a b c d] by (auto simp: clears_v4 reserved_def)
  next
    case (special d)
    then show ?thesis by (auto simp: reserved_def reserved_v4_def)
  next
    case v6
    then show ?thesis using True by (auto simp: clears_v6 reserved_def metadata_target_def)
  qed
qed (simp add: permitted_def)

lemma allow_all_permitted:
  "permitted allow_all_private_ips ip \<longleftrightarrow>
     well_formed_ip ip \<and> \<not> metadata_target ip
     \<and> \<not> (length ip = 16 \<and> take 6 ip = nat64_local_prefix)"
proof (cases "well_formed_ip ip")
  case True
  then show ?thesis
  proof (cases rule: permitted_cases)
    case (v4 a b c d)
    have "\<not> (length ip = 16 \<and> take 6 ip = nat64_local_prefix)"
    proof (cases "to4 ip")
      case None
      with v4(1) carried_not_v6_block(2) show ?thesis by blast
    next
      case (Some v)
      then have "take 12 ip = v4_in_v6_prefix" if "length ip = 16"
        using that by (auto simp: to4_def split: if_splits)
      from arg_cong [OF this, of "take 6"] show ?thesis by (auto simp: v4_in_v6_prefix_def)
    qed
    with v4 True show ?thesis by (auto simp: clears_v4 metadata_target_v4 [OF v4(1)])
  next
    case (special d)
    then have "take 6 ip \<noteq> nat64_local_prefix" by (auto simp: special_v6_def)
    with special True show ?thesis by (auto simp: metadata_target_v4 [OF special(2)] metadata_v4_def)
  next
    case v6
    then show ?thesis using True by (auto simp: clears_v6)
  qed
qed (simp add: permitted_def)

text \<open>A policy that allows more permits more.\<close>

definition policy_le :: "ip_policy \<Rightarrow> ip_policy \<Rightarrow> bool" where
  "policy_le q r \<longleftrightarrow>
     (allow_private q \<longrightarrow> allow_private r)
     \<and> (\<forall>ip. allows q ip \<longrightarrow> allow_private r \<or> allows r ip)"

lemma clears_mono: "policy_le q r \<Longrightarrow> clears q ip \<Longrightarrow> clears r ip"
  by (auto simp: policy_le_def clears_def)

lemma permitted_mono: "policy_le q r \<Longrightarrow> permitted q ip \<Longrightarrow> permitted r ip"
  by (auto simp: permitted_def list_all_iff intro: clears_mono)

lemma policy_le_all: "policy_le q allow_all_private_ips"
  by (simp add: policy_le_def)

end
