(* ===== verification/UrlChecks.thy ===== *)
theory UrlChecks
  imports PolicySpec
begin

text \<open>
  The checks of URLs, resolved hosts and dialed addresses: non-canonical literals and
  \<open>net.ParseIP\<close> never accept the same string, and \<open>ValidateURL\<close>,
  \<open>ValidateURLResolved\<close> and \<open>ControlFunc\<close> decide the specifications
  \<open>url_ok\<close>, \<open>all_permitted\<close> and \<open>permitted\<close>.
\<close>

section \<open>Non-canonical literals\<close>

lemma split_char_hd: "hd (split_char c s) = takeWhile (\<lambda>x. x \<noteq> c) s"
proof (induction s)
  case (Cons x s)
  then show ?case by (cases "split_char c s") auto
qed simp

lemma digit_not_sep:
  "is_digit c \<Longrightarrow> \<not> is_addr_sep c" "is_hex c \<Longrightarrow> \<not> is_addr_sep c"
  "is_octal c \<Longrightarrow> \<not> is_addr_sep c"
  by (auto simp: is_addr_sep_def is_digit_def is_hex_def is_octal_def in_range_def code_def)

lemma x_not_sep:
  "\<not> is_addr_sep (CHR ''0'')" "\<not> is_addr_sep (CHR ''x'')" "\<not> is_addr_sep (CHR ''X'')"
  by (simp_all add: is_addr_sep_def)

lemma parse_ip_no_separator: "\<forall>c\<in>set s. \<not> is_addr_sep c \<Longrightarrow> parse_ip s = None"
  by (simp add: parse_ip_def parse_addr_def dropWhile_all)

lemma parse_v4_leading_zero: "d \<noteq> CHR ''.'' \<Longrightarrow> parse_v4_fields (CHR ''0'' # d # s) = None"
  using split_char_hd [of "CHR ''.''" "CHR ''0'' # d # s"]
  by (cases "split_char (CHR ''.'') (CHR ''0'' # d # s)")
    (auto simp: parse_v4_fields_def octet_ok_def Let_def)

lemma parse_ip_octal:
  assumes d: "is_octal d" and s: "\<forall>c\<in>set s. is_octal c \<or> c = CHR ''.''"
  shows "parse_ip (CHR ''0'' # d # s) = None"
proof -
  let ?t = "CHR ''0'' # d # s"
  have z: "\<not> is_addr_sep (CHR ''0'')" by (simp add: is_addr_sep_def)
  have all: "c = CHR ''.''" if "c \<in> set ?t" "is_addr_sep c" for c
    using that d s z digit_not_sep(3) by auto
  show ?thesis
  proof (cases "dropWhile (\<lambda>c. \<not> is_addr_sep c) ?t")
    case (Cons x xs)
    then have "is_addr_sep x" "x \<in> set ?t"
      using hd_dropWhile [of "\<lambda>c. \<not> is_addr_sep c" ?t] set_dropWhileD [of x "\<lambda>c. \<not> is_addr_sep c" ?t]
      by auto
    with all have "x = CHR ''.''" by blast
    moreover have "d \<noteq> CHR ''.''" using digit_not_sep(3) [OF d] by (auto simp: is_addr_sep_def)
    ultimately show ?thesis
      using Cons parse_v4_leading_zero [of d s] by (simp add: parse_ip_def parse_addr_def)
  qed (simp add: parse_ip_def parse_addr_def)
qed

lemma octal_groups:
  "t \<in> lang (r_upto n (RSeq (r_char (CHR ''.'')) (r_plus (RSet octal_class)))) \<Longrightarrow>
     \<forall>c\<in>set t. is_octal c \<or> c = CHR ''.''"
proof (induction n arbitrary: t)
  case (Suc n)
  then show ?case by (fastforce simp: lang_plus_set list_all_iff)
qed simp

definition numeric_literal :: "string \<Rightarrow> bool" where
  "numeric_literal s \<longleftrightarrow> s \<noteq> [] \<and> list_all is_digit s"

definition hex_literal :: "string \<Rightarrow> bool" where
  "hex_literal s \<longleftrightarrow>
     (case s of
        z # x # hs \<Rightarrow> z = CHR ''0'' \<and> x \<in> {CHR ''x'', CHR ''X''} \<and> hs \<noteq> [] \<and> list_all is_hex hs
      | _ \<Rightarrow> False)"

lemma hex_literal_alt: "hex_literal s \<longleftrightarrow>
    (\<exists>x hs. s = CHR ''0'' # x # hs \<and> x \<in> {CHR ''x'', CHR ''X''} \<and> hs \<noteq> [] \<and> list_all is_hex hs)"
  by (auto simp: hex_literal_def split: list.splits)

lemma hex_branch:
  "s \<in> lang (RSeq (r_char (CHR ''0'')) (RSeq (RSet [(120, 120), (88, 88)]) (r_plus (RSet hex_class))))
     \<longleftrightarrow> hex_literal s"
proof -
  have x: "in_class [(120, 120), (88, 88)] c \<longleftrightarrow> c \<in> {CHR ''x'', CHR ''X''}" for c
    using in_range_code [of "CHR ''x''" c] in_range_code [of "CHR ''X''" c]
    by (simp add: code_def in_class_simps)
  show ?thesis
    unfolding r_char_def lang_seq_set lang_plus_set x hex_literal_alt
    by (auto simp: in_class_simps code_inj)
qed

lemma non_canonical_cases:
  assumes "match_string non_canonical_ip_pattern s"
  obtains "hex_literal s" | "numeric_literal s"
  | d t where "s = CHR ''0'' # d # t" "is_octal d" "\<forall>c\<in>set t. is_octal c \<or> c = CHR ''.''"
  using assms unfolding match_string_lang non_canonical_ip_pattern_def lang.simps(5) Un_iff hex_branch
proof (elim disjE)
  assume "s \<in> lang (r_plus (RSet digit_class))"
  then have "numeric_literal s" by (simp add: lang_plus_set numeric_literal_def)
  then show thesis by (rule that(2))
next
  assume "s \<in> lang (RSeq (r_char (CHR ''0'')) (RSeq (r_plus (RSet octal_class))
      (r_upto 3 (RSeq (r_char (CHR ''.'')) (r_plus (RSet octal_class))))))"
  then obtain os t where s: "s = CHR ''0'' # os @ t" and os: "os \<noteq> []" "list_all is_octal os"
    and t: "t \<in> lang (r_upto 3 (RSeq (r_char (CHR ''.'')) (r_plus (RSet octal_class))))"
    by (auto simp: lang_plus_set)
  from os obtain d ds where "os = d # ds" by (cases os) auto
  with s os octal_groups [OF t] that(3) [of d "ds @ t"] show thesis by (auto simp: list_all_iff)
qed (rule that(1))

text \<open>The two tests on a literal host never overlap, so their order does not matter.\<close>

lemma non_canonical_unparsed:
  assumes "match_string non_canonical_ip_pattern s"
  shows "parse_ip s = None"
  using assms
proof (cases rule: non_canonical_cases)
  case 1
  then show ?thesis
    using digit_not_sep(2) x_not_sep
    by (intro parse_ip_no_separator) (auto simp: hex_literal_alt list_all_iff)
next
  case 2
  then show ?thesis
    using digit_not_sep(1) by (intro parse_ip_no_separator) (auto simp: numeric_literal_def list_all_iff)
next
  case (3 d t)
  then show ?thesis by (simp add: parse_ip_octal)
qed

text \<open>Leading-zero octal: one to four groups of octal digits, separated by dots, after a zero.\<close>

definition octal_groups_ok :: "nat \<Rightarrow> string \<Rightarrow> bool" where
  "octal_groups_ok n t \<longleftrightarrow>
     (let gs = split_char (CHR ''.'') t
      in length gs \<le> n \<and> list_all (\<lambda>g. g \<noteq> [] \<and> list_all is_octal g) gs)"

definition octal_literal :: "string \<Rightarrow> bool" where
  "octal_literal s \<longleftrightarrow> s \<noteq> [] \<and> hd s = CHR ''0'' \<and> octal_groups_ok 4 (tl s)"

abbreviation "octal_tail n \<equiv> lang (r_upto n (RSeq (r_char (CHR ''.'')) (r_plus (RSet octal_class))))"

lemma octal_no_dot: "list_all is_octal s \<Longrightarrow> CHR ''.'' \<notin> set s"
  by (auto simp: list_all_iff is_octal_def in_range_def code_def)

lemma octal_tail_Suc:
  "t \<in> octal_tail (Suc n) \<longleftrightarrow>
     t = [] \<or> (\<exists>os t'. t = CHR ''.'' # os @ t' \<and> os \<noteq> [] \<and> list_all is_octal os \<and> t' \<in> octal_tail n)"
proof -
  have "CHR ''.'' # os @ t' \<in> octal_tail (Suc n)"
    if "os \<noteq> []" "list_all is_octal os" "t' \<in> octal_tail n" for os t'
  proof -
    have "CHR ''.'' # os \<in> lang (RSeq (r_char (CHR ''.'')) (r_plus (RSet octal_class)))"
      using that by (simp add: lang_plus_set)
    with that(3) have "(CHR ''.'' # os) @ t' \<in> octal_tail (Suc n)"
      unfolding r_upto.simps lang_r_opt lang.simps(4) by blast
    then show ?thesis by simp
  qed
  moreover have "\<exists>os t'. t = CHR ''.'' # os @ t' \<and> os \<noteq> [] \<and> list_all is_octal os \<and> t' \<in> octal_tail n"
    if "t \<in> octal_tail (Suc n)" "t \<noteq> []"
  proof -
    from that obtain x y where t: "t = x @ y" "y \<in> octal_tail n"
      and "x \<in> lang (RSeq (r_char (CHR ''.'')) (r_plus (RSet octal_class)))"
      unfolding r_upto.simps lang_r_opt lang.simps(4) by blast
    then obtain os where "x = CHR ''.'' # os" "os \<noteq> []" "list_all is_octal os"
      by (auto simp: lang_plus_set)
    with t show ?thesis by auto
  qed
  ultimately show ?thesis by (cases "t = []") (simp, blast)
qed

lemma octal_groups_split:
  "(\<exists>os t. s = os @ t \<and> os \<noteq> [] \<and> list_all is_octal os \<and> t \<in> octal_tail n) \<longleftrightarrow>
     octal_groups_ok (Suc n) s"
proof (induction n arbitrary: s)
  case 0
  have "split_char (CHR ''.'') s = [s]" if "length (split_char (CHR ''.'') s) = 1"
    using that join_split [of "CHR ''.''" s] by (cases "split_char (CHR ''.'') s") auto
  then show ?case
    using split_char_ne [of "CHR ''.''" s]
    by (auto simp: octal_groups_ok_def Let_def le_Suc_eq split_char_no_occ [OF octal_no_dot])
next
  case (Suc n)
  show ?case
  proof
    assume "\<exists>os t. s = os @ t \<and> os \<noteq> [] \<and> list_all is_octal os \<and> t \<in> octal_tail (Suc n)"
    then obtain os t where s: "s = os @ t" and os: "os \<noteq> []" "list_all is_octal os"
      and t: "t = [] \<or> (\<exists>os' t'. t = CHR ''.'' # os' @ t' \<and> os' \<noteq> [] \<and> list_all is_octal os' \<and> t' \<in> octal_tail n)"
      by (auto simp only: octal_tail_Suc)
    from t show "octal_groups_ok (Suc (Suc n)) s"
    proof (elim disjE exE conjE)
      fix os' t'
      assume "t = CHR ''.'' # os' @ t'" "os' \<noteq> []" "list_all is_octal os'" "t' \<in> octal_tail n"
      moreover from this Suc have "octal_groups_ok (Suc n) (os' @ t')" by blast
      ultimately show ?thesis
        using s os by (simp add: octal_groups_ok_def Let_def split_char_append [OF octal_no_dot])
    qed (use s os in \<open>simp add: octal_groups_ok_def Let_def split_char_no_occ [OF octal_no_dot]\<close>)
  next
    assume ok: "octal_groups_ok (Suc (Suc n)) s"
    obtain g gs where sp: "split_char (CHR ''.'') s = g # gs"
      using split_char_ne [of "CHR ''.''" s] by (cases "split_char (CHR ''.'') s") auto
    with ok have g: "g \<noteq> []" "list_all is_octal g" and gs: "length gs \<le> Suc n"
      "list_all (\<lambda>g. g \<noteq> [] \<and> list_all is_octal g) gs"
      by (simp_all add: octal_groups_ok_def)
    have s: "s = join_char (CHR ''.'') (g # gs)" using join_split [of "CHR ''.''" s] sp by simp
    show "\<exists>os t. s = os @ t \<and> os \<noteq> [] \<and> list_all is_octal os \<and> t \<in> octal_tail (Suc n)"
    proof (cases gs)
      case Nil
      with s g show ?thesis by (intro exI [of _ s] exI [of _ "[]"]) (simp add: octal_tail_Suc)
    next
      case (Cons h hs)
      have "octal_groups_ok (Suc n) (join_char (CHR ''.'') gs)"
        using gs split_join [of gs "CHR ''.''"] octal_no_dot
        by (auto simp: octal_groups_ok_def Let_def list_all_iff Cons)
      with Suc obtain os t where "join_char (CHR ''.'') gs = os @ t" "os \<noteq> []" "list_all is_octal os"
        "t \<in> octal_tail n" by blast
      then have "CHR ''.'' # os @ t \<in> octal_tail (Suc n)" "s = g @ CHR ''.'' # os @ t"
        using s Cons octal_tail_Suc [of "CHR ''.'' # os @ t" n] by auto
      with g show ?thesis by blast
    qed
  qed
qed

lemma non_canonical_exact:
  "match_string non_canonical_ip_pattern s \<longleftrightarrow> numeric_literal s \<or> hex_literal s \<or> octal_literal s"
proof -
  have "s \<in> lang (RSeq (r_char (CHR ''0'')) (RSeq (r_plus (RSet octal_class))
      (r_upto 3 (RSeq (r_char (CHR ''.'')) (r_plus (RSet octal_class)))))) \<longleftrightarrow> octal_literal s"
    using octal_groups_split [of "tl s" 3]
    by (cases s) (auto simp: octal_literal_def lang_plus_set simp del: r_upto.simps)
  then show ?thesis
    unfolding match_string_lang non_canonical_ip_pattern_def lang.simps(5) Un_iff hex_branch
    by (auto simp: lang_plus_set numeric_literal_def)
qed

section \<open>URLs\<close>

text \<open>
  The URLs a policy accepts before any name is resolved. Hosts are compared in lower case and
  without the dot that may end a domain name.
\<close>

definition undotted :: "string \<Rightarrow> string" where
  "undotted h = (if h \<noteq> [] \<and> last h = CHR ''.'' then butlast h else h)"

definition host_text :: "url \<Rightarrow> string" where
  "host_text u = undotted (to_lower (hostname u))"

definition url_ok :: "ip_policy \<Rightarrow> url \<Rightarrow> bool" where
  "url_ok q u \<longleftrightarrow>
     to_lower (url_scheme u) \<in> {''http'', ''https''} \<and> hostname u \<noteq> []
     \<and> host_text u \<notin> {''metadata.google.internal'', ''metadata.goog''}
     \<and> (host_text u \<in> {''localhost'', ''localhost.localdomain''} \<longrightarrow>
          permitted q [127, 0, 0, 1] \<or> permitted q v6_loopback)
     \<and> \<not> numeric_literal (host_text u) \<and> \<not> hex_literal (host_text u) \<and> \<not> octal_literal (host_text u)
     \<and> (case parse_ip (strip_zone (host_text u)) of None \<Rightarrow> True | Some ip \<Rightarrow> permitted q ip)"

lemma host_alias_text: "host_alias (hostname u) = host_text u"
  by (simp add: host_alias_def lower_host_def trim_suffix_char_def undotted_def host_text_def)

lemma host_alias_lower [simp]: "host_alias (lower_host h) = host_alias h"
  by (simp add: host_alias_def lower_host_def)

lemma permitted_mapped: "permitted q (ipv4 a b c d) \<longleftrightarrow> permitted q [a, b, c, d]"
  by (simp add: permitted_to4)

lemma allows_loopback_iff:
  "allows_loopback_by_name p \<longleftrightarrow>
     permitted (effective_policy p) [127, 0, 0, 1] \<or> permitted (effective_policy p) v6_loopback"
  by (simp add: allows_loopback_by_name_def loopback_ips_def check_ip_permitted permitted_mapped)

lemma validate_url_iff:
  "validate_url parse p raw = None \<longleftrightarrow>
     (case parse raw of Inl _ \<Rightarrow> False | Inr u \<Rightarrow> url_ok (effective_policy p) u)"
proof (cases "parse raw")
  case (Inr u)
  show ?thesis
    unfolding validate_url_def Inr
    by (auto simp: url_ok_def Let_def allowed_schemes_def metadata_hostnames_def host_alias_text
        loopback_hostnames_def allows_loopback_iff check_ip_permitted non_canonical_exact
        split: option.split)
qed (simp add: validate_url_def)

lemma validate_url_denial:
  assumes "parse raw = Inr u" and "validate_url parse p raw = Some e"
  shows "errors_is e ErrBlockedByPolicy"
  using assms
  by (auto simp: validate_url_def Let_def policy_err_def dest: check_ip_blocked
      split: if_splits option.splits)

text \<open>Where a policy looks a host up.\<close>

definition lookup_of :: "(string \<Rightarrow> go_err + ip list) \<Rightarrow> ip_policy option \<Rightarrow> string \<Rightarrow> go_err + ip list" where
  "lookup_of default_lookup p =
     (case Option.bind p policy_resolver of None \<Rightarrow> default_lookup | Some r \<Rightarrow> lookup_ip_addr r)"

definition is_literal :: "url \<Rightarrow> bool" where
  "is_literal u \<longleftrightarrow> parse_ip (strip_zone (host_text u)) \<noteq> None"

lemma check_all_iff: "check_all p as = None \<longleftrightarrow> list_all (permitted (effective_policy p)) as"
  by (induction as) (auto simp: check_ip_permitted [symmetric] split: option.splits)

definition all_permitted :: "ip_policy \<Rightarrow> go_err + ip list \<Rightarrow> bool" where
  "all_permitted q r \<longleftrightarrow> (case r of Inl _ \<Rightarrow> False | Inr as \<Rightarrow> as \<noteq> [] \<and> list_all (permitted q) as)"

lemma validate_url_resolved_iff:
  "validate_url_resolved parse dl p raw = None \<longleftrightarrow>
     (case parse raw of
        Inl _ \<Rightarrow> False
      | Inr u \<Rightarrow> url_ok (effective_policy p) u
          \<and> (is_literal u
             \<or> all_permitted (effective_policy p) (lookup_of dl p (lower_host (hostname u)))))"
proof (cases "validate_url parse p raw")
  case None
  then obtain u where u: "parse raw = Inr u" "url_ok (effective_policy p) u"
    by (auto simp: validate_url_iff split: sum.splits)
  let ?h = "lower_host (hostname u)"
  have look: "(case p of
        Some q \<Rightarrow> (case policy_resolver q of Some r \<Rightarrow> lookup_ip_addr r | None \<Rightarrow> dl)
      | None \<Rightarrow> dl) = lookup_of dl p"
    by (auto simp: lookup_of_def split: option.split)
  show ?thesis
  proof (cases "is_literal u")
    case True
    with None u show ?thesis
      by (auto simp: validate_url_resolved_def Let_def is_literal_def host_alias_text)
  next
    case False
    then have "validate_url_resolved parse dl p raw =
        (case lookup_of dl p ?h of
           Inl e \<Rightarrow> Some (errorf_w ''cannot resolve host'' e)
         | Inr [] \<Rightarrow> Some (errorf ''cannot resolve host: resolver returned no addresses'')
         | Inr as \<Rightarrow> check_all p as)"
      using None u look by (simp add: validate_url_resolved_def Let_def is_literal_def host_alias_text)
    with False u show ?thesis
      by (auto simp: all_permitted_def check_all_iff
          simp del: check_all.simps split: sum.split list.split)
  qed
next
  case (Some e)
  then show ?thesis
    using validate_url_iff [of parse p raw]
    by (auto simp: validate_url_resolved_def split: sum.splits)
qed

section \<open>Dialed addresses\<close>

text \<open>\<open>net.JoinHostPort\<close>, which is how the dialer writes the address it connects to.\<close>

definition join_host_port :: "string \<Rightarrow> string \<Rightarrow> string" where
  "join_host_port h p =
     (if CHR '':'' \<in> set h then CHR ''['' # h @ '']:'' @ p else h @ CHR '':'' # p)"

lemma takeWhile_to: "c \<notin> set x \<Longrightarrow> takeWhile (\<lambda>y. y \<noteq> c) (x @ c # r) = x"
  by (induction x) auto

lemma dropWhile_to: "c \<notin> set x \<Longrightarrow> dropWhile (\<lambda>y. y \<noteq> c) (x @ c # r) = c # r"
  by (induction x) auto

lemma cut_char_to: "c \<notin> set x \<Longrightarrow> cut_char c (x @ c # r) = Some (x, r)"
  by (simp add: cut_char_def takeWhile_to dropWhile_to)

lemma cut_last_to: "c \<notin> set r \<Longrightarrow> cut_last c (x @ c # r) = Some (x, r)"
  using cut_char_to [of c "rev r" "rev x"] by (simp add: cut_last_def)

definition plain_host :: "string \<Rightarrow> bool" where
  "plain_host h \<longleftrightarrow> CHR ''['' \<notin> set h \<and> CHR '']'' \<notin> set h"

definition plain_port :: "string \<Rightarrow> bool" where
  "plain_port p \<longleftrightarrow> list_all is_digit p"

lemma plain_port_chars:
  "plain_port p \<Longrightarrow> CHR '':'' \<notin> set p \<and> CHR ''['' \<notin> set p \<and> CHR '']'' \<notin> set p"
  by (auto simp: plain_port_def list_all_iff is_digit_def in_range_def code_def)

lemma split_join_host_port:
  assumes h: "plain_host h" and p: "plain_port p"
  shows "split_host_port (join_host_port h p) = Some (h, p)"
proof (cases "CHR '':'' \<in> set h")
  case True
  have last: "cut_last (CHR '':'') (CHR ''['' # h @ '']:'' @ p) = Some (CHR ''['' # h @ '']'', p)"
    using cut_last_to [of "CHR '':''" p "CHR ''['' # h @ '']''"] plain_port_chars [OF p] by simp
  have first: "cut_char (CHR '']'') (CHR ''['' # h @ '']:'' @ p) = Some (CHR ''['' # h, CHR '':'' # p)"
    using cut_char_to [of "CHR '']''" "CHR ''['' # h" "CHR '':'' # p"] h by (simp add: plain_host_def)
  from True last first h plain_port_chars [OF p] show ?thesis
    by (simp add: join_host_port_def split_host_port_def plain_host_def)
next
  case False
  then have "cut_last (CHR '':'') (h @ CHR '':'' # p) = Some (h, p)"
    using cut_last_to [of "CHR '':''" p h] plain_port_chars [OF p] by simp
  moreover have "hd (h @ CHR '':'' # p) \<noteq> CHR ''[''"
    using h by (cases h) (auto simp: plain_host_def)
  ultimately show ?thesis
    using False h plain_port_chars [OF p]
    by (simp add: join_host_port_def split_host_port_def plain_host_def)
qed

lemma control_func_iff:
  "control_func p addr = None \<longleftrightarrow>
     (let h = (case split_host_port addr of Some (h, _) \<Rightarrow> h | None \<Rightarrow> addr)
      in case parse_ip (strip_zone h) of
           None \<Rightarrow> False
         | Some ip \<Rightarrow> permitted (effective_policy p) ip)"
  by (simp add: control_func_def Let_def check_ip_permitted split: option.split)

lemma control_func_denial: "control_func p addr = Some e \<Longrightarrow> errors_is e ErrBlockedByPolicy"
  by (auto simp: control_func_def Let_def policy_err_def dest: check_ip_blocked split: option.splits)


end
