(* ===== verification/TargetCache.thy ===== *)
theory TargetCache
  imports UrlChecks "HOL-Library.AList"
begin

text \<open>
  The verdict cache for proxied targets and the check that uses it (\<open>client.go\<close>). Lookups
  are lock-free; the check of the cap, the eviction and the insertion run under one lock, so they
  are one step here.
\<close>

section \<open>State\<close>

definition proxied_target_deny_ttl :: duration where
  "proxied_target_deny_ttl = 30 * second"

definition proxied_target_allow_ttl :: duration where
  "proxied_target_allow_ttl = 1 * second"

definition max_proxied_target_entries :: int where
  "max_proxied_target_entries = 1024"

record target_verdict =
  verdict_err :: "go_err option"
  expires :: instant

text \<open>The entries of the \<open>sync.Map\<close>, in the order a traversal happens to visit them.\<close>

record target_cache =
  entries :: "(string \<times> target_verdict) list"
  size_count :: int

definition empty_target_cache :: target_cache where
  "empty_target_cache = \<lparr>entries = [], size_count = 0\<rparr>"

definition verdict_ttl :: "go_err option \<Rightarrow> duration" where
  "verdict_ttl e = (if e \<noteq> None then proxied_target_deny_ttl else proxied_target_allow_ttl)"

section \<open>Operations\<close>

text \<open>One call of the function \<open>Range\<close> applies to each entry.\<close>

definition evict_entry :: "instant \<Rightarrow> string \<times> target_verdict \<Rightarrow> target_cache \<Rightarrow> target_cache" where
  "evict_entry now kv c =
     (if now < expires (snd kv) then c
      else if map_of (entries c) (fst kv) \<noteq> None
      then \<lparr>entries = AList.delete (fst kv) (entries c), size_count = size_count c - 1\<rparr>
      else c)"

definition evict_if_full :: "instant \<Rightarrow> target_cache \<Rightarrow> target_cache" where
  "evict_if_full now c =
     (if size_count c < max_proxied_target_entries then c
      else (let c = fold (evict_entry now) (entries c) c
            in if size_count c \<ge> max_proxied_target_entries
               then \<lparr>entries = [], size_count = 0\<rparr> else c))"

text \<open>The section under the lock \<open>admit\<close>.\<close>

definition admit :: "string \<Rightarrow> instant \<Rightarrow> go_err option \<Rightarrow> target_cache \<Rightarrow> target_cache" where
  "admit host now e c =
     (let c = evict_if_full now c;
          loaded = map_of (entries c) host \<noteq> None;
          c = c\<lparr>entries := AList.update host \<lparr>verdict_err = e, expires = now + verdict_ttl e\<rparr> (entries c)\<rparr>
      in if loaded then c else c\<lparr>size_count := size_count c + 1\<rparr>)"

definition cached_verdict :: "string \<Rightarrow> instant \<Rightarrow> target_cache \<Rightarrow> go_err option option" where
  "cached_verdict host now c =
     (case map_of (entries c) host of
        None \<Rightarrow> None
      | Some v \<Rightarrow> if now < expires v then Some (verdict_err v) else None)"

text \<open>\<open>check\<close>; \<open>validated\<close> is what the call of \<open>validate\<close> gives, when it is made.\<close>

definition check :: "string \<Rightarrow> instant \<Rightarrow> go_err option \<Rightarrow> target_cache \<Rightarrow> go_err option \<times> target_cache" where
  "check host now validated c =
     (case cached_verdict host now c of
        Some e \<Rightarrow> (e, c)
      | None \<Rightarrow>
          if validated \<noteq> None \<and> \<not> blocked validated then (validated, c)
          else (validated, admit host now validated c))"

definition validate_proxied_target ::
    "url_parser \<Rightarrow> (string \<Rightarrow> go_err + ip list) \<Rightarrow> ip_policy \<Rightarrow> url \<times> string \<Rightarrow> instant
      \<Rightarrow> target_cache \<Rightarrow> go_err option \<times> target_cache" where
  "validate_proxied_target parse default_lookup p req now c =
     (case check (lower_host (hostname (fst req))) now
             (validate_url_resolved parse default_lookup (Some p) (snd req)) c of
        (None, c') \<Rightarrow> (None, c')
      | (Some e, c') \<Rightarrow>
          (case as_dns_error e of
             Some (not_found, _) \<Rightarrow> if trust_proxy_resolution p \<and> not_found then (None, c') else (Some e, c')
           | None \<Rightarrow> (Some e, c')))"

section \<open>The bound\<close>

definition cache_ok :: "target_cache \<Rightarrow> bool" where
  "cache_ok c \<longleftrightarrow> distinct (map fst (entries c)) \<and> size_count c = int (length (entries c))
     \<and> size_count c \<le> max_proxied_target_entries
     \<and> (\<forall>(h, v) \<in> set (entries c). verdict_err v = None \<or> blocked (verdict_err v))"

lemma delete_filter: "AList.delete k xs = filter (\<lambda>x. fst x \<noteq> k) xs"
  by (auto simp: AList.delete_eq intro!: filter_cong)

lemma delete_absent: "k \<notin> fst ` set xs \<Longrightarrow> AList.delete k xs = xs"
  by (auto simp: delete_filter filter_id_conv)

lemma length_delete:
  "distinct (map fst xs) \<Longrightarrow> k \<in> fst ` set xs \<Longrightarrow> Suc (length (AList.delete k xs)) = length xs"
proof (induction xs)
  case (Cons x xs)
  show ?case
  proof (cases "fst x = k")
    case True
    with Cons.prems delete_absent [of k xs] show ?thesis by (cases x) auto
  next
    case False
    with Cons show ?thesis by (cases x) auto
  qed
qed simp

lemma map_of_present: "map_of xs k \<noteq> None \<longleftrightarrow> k \<in> fst ` set xs"
  by (simp add: map_of_eq_None_iff)

definition counted :: "target_cache \<Rightarrow> bool" where
  "counted c \<longleftrightarrow> distinct (map fst (entries c)) \<and> size_count c = int (length (entries c))"

lemma distinct_fst_filter: "distinct (map fst xs) \<Longrightarrow> distinct (map fst (filter P xs))"
  by (induction xs) auto

lemma evict_entry_counted: "counted c \<Longrightarrow> counted (evict_entry now kv c)"
proof (cases "fst kv \<in> fst ` set (entries c)")
  case True
  assume "counted c"
  with True length_delete [of "entries c" "fst kv"] show ?thesis
    unfolding evict_entry_def counted_def map_of_present
    by (auto simp: delete_filter distinct_fst_filter)
next
  case False
  assume "counted c"
  with False show ?thesis unfolding evict_entry_def map_of_present by simp
qed

lemma evict_fold:
  "entries (fold (evict_entry now) kvs c) =
     filter (\<lambda>x. \<forall>kv \<in> set kvs. fst kv = fst x \<longrightarrow> now < expires (snd kv)) (entries c)
   \<and> (counted c \<longrightarrow> counted (fold (evict_entry now) kvs c))"
proof (induction kvs arbitrary: c)
  case (Cons kv kvs)
  have "entries (evict_entry now kv c) =
      filter (\<lambda>x. fst kv = fst x \<longrightarrow> now < expires (snd kv)) (entries c)"
    by (auto simp: evict_entry_def delete_filter map_of_eq_None_iff filter_id_conv
        intro!: filter_cong [symmetric] filter_True [symmetric])
  with Cons evict_entry_counted [of c now kv] show ?case
    by (auto intro!: filter_cong)
qed simp

text \<open>A traversal drops exactly the expired entries.\<close>

lemma evict_all:
  assumes "counted c"
  shows "entries (fold (evict_entry now) (entries c) c) =
      filter (\<lambda>x. now < expires (snd x)) (entries c)"
    and "counted (fold (evict_entry now) (entries c) c)"
proof -
  have "(\<forall>kv \<in> set (entries c). fst kv = fst x \<longrightarrow> now < expires (snd kv)) \<longleftrightarrow> now < expires (snd x)"
    if "x \<in> set (entries c)" for x
    using that assms unfolding counted_def by (metis eq_key_imp_eq_value prod.collapse)
  then show "entries (fold (evict_entry now) (entries c) c) =
      filter (\<lambda>x. now < expires (snd x)) (entries c)"
    by (simp add: evict_fold cong: filter_cong)
  from assms show "counted (fold (evict_entry now) (entries c) c)" by (simp add: evict_fold)
qed

lemma evict_if_full_counted:
  assumes "counted c"
  shows "counted (evict_if_full now c)" "size_count (evict_if_full now c) < max_proxied_target_entries"
    "set (entries (evict_if_full now c)) \<subseteq> set (entries c)"
  using assms evict_all [OF assms, of now]
  by (auto simp: evict_if_full_def Let_def counted_def max_proxied_target_entries_def)

lemma update_length:
  "length (AList.update k v xs) = (if map_of xs k \<noteq> None then length xs else Suc (length xs))"
  by (induction xs) auto

lemma update_set: "set (AList.update k v xs) \<subseteq> insert (k, v) (set xs)"
  by (induction xs) auto

abbreviation "new_verdict now e \<equiv> \<lparr>verdict_err = e, expires = now + verdict_ttl e\<rparr>"

lemma admit_entries:
  "entries (admit h now e c) = AList.update h (new_verdict now e) (entries (evict_if_full now c))"
  by (simp add: admit_def Let_def)

lemma admit_entries_subset:
  assumes "counted c"
  shows "set (entries (admit h now e c)) \<subseteq> insert (h, new_verdict now e) (set (entries c))"
  using update_set [of h "new_verdict now e" "entries (evict_if_full now c)"]
    evict_if_full_counted(3) [OF assms, of now]
  unfolding admit_entries by blast

lemma admit_counted:
  assumes "counted c"
  shows "counted (admit h now e c)" and "size_count (admit h now e c) \<le> max_proxied_target_entries"
  using evict_if_full_counted(1,2) [OF assms, of now]
  by (auto simp: admit_def Let_def counted_def update_length distinct_update)

lemma cache_ok_counted: "cache_ok c \<Longrightarrow> counted c"
  by (simp add: cache_ok_def counted_def)

lemma admit_ok:
  assumes "cache_ok c" and "e = None \<or> blocked e"
  shows "cache_ok (admit h now e c)"
proof -
  note c = cache_ok_counted [OF assms(1)]
  have "\<forall>(k, w) \<in> set (entries (admit h now e c)). verdict_err w = None \<or> blocked (verdict_err w)"
    using admit_entries_subset [OF c, of h now e] assms by (auto simp: cache_ok_def)
  with admit_counted [OF c, of h now e] show ?thesis
    unfolding cache_ok_def counted_def by blast
qed

text \<open>A step of any goroutine: a lookup changes nothing, a new verdict is admitted.\<close>

inductive cache_trans :: "target_cache \<Rightarrow> target_cache \<Rightarrow> bool" where
  admit_step: "e = None \<or> blocked e \<Longrightarrow> cache_trans c (admit h now e c)"
| check_step: "check h now validated c = (r, c') \<Longrightarrow> cache_trans c c'"

inductive_cases cache_transE: "cache_trans c c'"

definition cache_start :: "target_cache \<Rightarrow> bool" where
  "cache_start c \<longleftrightarrow> c = empty_target_cache"

lemma check_ok: "cache_ok c \<Longrightarrow> check h now validated c = (r, c') \<Longrightarrow> cache_ok c'"
  by (auto simp: check_def split: option.splits if_splits intro: admit_ok)

interpretation tc: invariant_system cache_start cache_trans cache_ok
proof
  show "cache_ok c" if "cache_start c" for c
    using that by (simp add: cache_start_def cache_ok_def empty_target_cache_def
        max_proxied_target_entries_def)
  show "cache_ok c'" if "cache_ok c" "cache_trans c c'" for c c'
    using that(2,1) by (elim cache_transE) (auto intro: admit_ok check_ok)
qed

section \<open>Freshness\<close>

text \<open>
  The cache justified by the verdicts admitted so far: what it holds for a host was the outcome
  of a validation of that host, and expires that verdict's lifetime after the validation began.
\<close>

type_synonym validation = "string \<times> instant \<times> go_err option"

definition justified :: "validation set \<Rightarrow> target_cache \<Rightarrow> bool" where
  "justified H c \<longleftrightarrow> (\<forall>(h, v) \<in> set (entries c).
     \<exists>t. (h, t, verdict_err v) \<in> H \<and> expires v = t + verdict_ttl (verdict_err v))"

lemma admit_justified:
  assumes "justified H c" "counted c"
  shows "justified (insert (h, now, e) H) (admit h now e c)"
  using assms(1) admit_entries_subset [OF assms(2), of h now e]
  by (fastforce simp: justified_def)

text \<open>
  Calls of \<open>check\<close> in sequence, each with its host, its time and the outcome its validation
  would have, and the answers.
\<close>

fun checks :: "validation list \<Rightarrow> target_cache \<Rightarrow> go_err option list \<times> target_cache" where
  "checks [] c = ([], c)"
| "checks ((h, t, e) # vs) c =
     (case check h t e c of (r, c') \<Rightarrow> (case checks vs c' of (rs, c'') \<Rightarrow> (r # rs, c'')))"

definition fresh_answer :: "validation set \<Rightarrow> validation \<Rightarrow> go_err option \<Rightarrow> bool" where
  "fresh_answer H v r \<longleftrightarrow>
     r = snd (snd v)
     \<or> (\<exists>t. (fst v, t, r) \<in> H \<and> fst (snd v) < t + (if r = None then 1 * second else 30 * second))"

lemma check_fresh:
  assumes "justified H c" "check h t e c = (r, c')"
  shows "fresh_answer H (h, t, e) r"
  using assms
  by (fastforce simp: check_def cached_verdict_def fresh_answer_def justified_def verdict_ttl_def
      proxied_target_allow_ttl_def proxied_target_deny_ttl_def
      split: option.splits if_splits dest!: map_of_SomeD)

lemma check_justified:
  assumes "justified H c" "counted c" "check h t e c = (r, c')"
  shows "justified (insert (h, t, e) H) c' \<and> counted c'"
proof -
  have "justified (insert (h, t, e) H) c" using assms(1) by (fastforce simp: justified_def)
  with admit_justified [OF assms(1,2)] admit_counted(1) [OF assms(2)] assms(2,3) show ?thesis
    by (auto simp: check_def split: option.splits if_splits)
qed

text \<open>Each answer is justified by its own validation or one of those made before it.\<close>

fun fresh_answers :: "validation set \<Rightarrow> validation list \<Rightarrow> go_err option list \<Rightarrow> bool" where
  "fresh_answers H [] rs \<longleftrightarrow> rs = []"
| "fresh_answers H (v # vs) [] \<longleftrightarrow> False"
| "fresh_answers H (v # vs) (r # rs) \<longleftrightarrow> fresh_answer H v r \<and> fresh_answers (insert v H) vs rs"

lemma checks_fresh:
  assumes "justified H c" "counted c" "checks vs c = (rs, c')"
  shows "fresh_answers H vs rs"
  using assms
proof (induction vs arbitrary: H c rs)
  case (Cons v vs)
  obtain h t e where v: "v = (h, t, e)" by (cases v)
  obtain r c1 where k: "check h t e c = (r, c1)" by fastforce
  obtain rs' where rs: "rs = r # rs'" and cs: "checks vs c1 = (rs', c')"
    using Cons.prems(3) v k by (auto split: prod.splits)
  have "fresh_answers (insert (h, t, e) H) vs rs'"
    using check_justified [OF Cons.prems(1,2) k] Cons.IH [OF _ _ cs] by blast
  with check_fresh [OF Cons.prems(1) k] show ?case by (simp add: rs v)
qed simp

section \<open>Properties\<close>

text \<open>
  C9: In every reachable state of the verdict cache, whatever the order of lock-free checks and
  admissions, there are at most 1024 entries, one per host, the counter equals their number, and
  only successes and policy denials are held.
\<close>

theorem target_cache_bounded:
  assumes "reachable cache_start cache_trans c"
  shows "distinct (map fst (entries c)) \<and> size_count c = int (length (entries c))
     \<and> length (entries c) \<le> 1024
     \<and> (\<forall>(h, v) \<in> set (entries c). verdict_err v = None \<or> blocked (verdict_err v))"
  using tc.inv_reachable [OF assms] by (auto simp: cache_ok_def max_proxied_target_entries_def)

lemma admit_reachable:
  "reachable cache_start cache_trans c \<Longrightarrow> e = None \<or> blocked e \<Longrightarrow>
     reachable cache_start cache_trans (admit h t e c)"
  by (blast intro: reach_step admit_step)

theorem target_cache_bounded_witness:
  "size_count (admit ''b'' 7 None (admit ''a'' 5 (Some (policy_err [])) empty_target_cache)) =
     int (length (entries (admit ''b'' 7 None (admit ''a'' 5 (Some (policy_err [])) empty_target_cache))))"
proof -
  have "reachable cache_start cache_trans empty_target_cache"
    by (rule reach_start) (simp add: cache_start_def)
  then have "reachable cache_start cache_trans
      (admit ''b'' 7 None (admit ''a'' 5 (Some (policy_err [])) empty_target_cache))"
    by (intro admit_reachable) (simp_all add: policy_err_def)
  from target_cache_bounded [OF this] show ?thesis by blast
qed

text \<open>
  C20: Every answer \<open>check\<close> gives in a sequence of calls is the validation result of
  that call or the result of an earlier validation of the same host that began less than one
  second before for a success and less than thirty seconds before for a denial.
\<close>

theorem check_answers_fresh:
  "fresh_answers {} vs (fst (checks vs empty_target_cache))"
proof -
  have "justified {} empty_target_cache" "counted empty_target_cache"
    by (simp_all add: justified_def counted_def empty_target_cache_def)
  from checks_fresh [OF this surjective_pairing] show ?thesis by simp
qed

text \<open>
  A verdict that is neither a success nor a policy denial is passed on and leaves the cache as it
  was.
\<close>

lemma transient_errors_not_cached:
  assumes "cache_ok c" and "check h now validated c = (Some e, c')"
    and "\<not> errors_is e ErrBlockedByPolicy"
  shows "validated = Some e \<and> c' = c"
proof -
  have "verdict_err v = None \<or> blocked (verdict_err v)" if "(h, v) \<in> set (entries c)" for v
    using assms(1) that by (auto simp: cache_ok_def)
  with assms(2,3) show ?thesis
    by (fastforce simp: check_def cached_verdict_def split: option.splits if_splits
        dest!: map_of_SomeD)
qed

lemma transient_errors_not_cached_witness:
  "snd (check ''h'' 3 (Some (errorf ''timeout'')) empty_target_cache) = empty_target_cache"
  using transient_errors_not_cached [of empty_target_cache "''h''" 3 "Some (errorf ''timeout'')"
      "errorf ''timeout''"]
  by (simp add: check_def cached_verdict_def cache_ok_def empty_target_cache_def
      max_proxied_target_entries_def)

lemma policy_err_dns [simp]: "as_dns_error (policy_err m) = None"
  by (simp add: policy_err_def as_dns_error_def errorf_w_def err_value_def)

lemma check_private_dns: "check_private p ns ip = Some e \<Longrightarrow> as_dns_error e = None"
  by (induction ns) (auto split: if_splits)

lemma check_ip_dns: "check_ip p ip = Some e \<Longrightarrow> as_dns_error e = None"
proof (induction p ip arbitrary: e rule: check_ip.induct)
  case (1 p ip)
  then show ?case
    unfolding check_ip.simps [of p ip]
    by (auto simp: Let_def split: if_splits option.splits dest: check_private_dns)
qed

lemma check_all_dns: "check_all p as = Some e \<Longrightarrow> as_dns_error e = None"
  by (induction as) (auto split: option.splits dest: check_ip_dns)

lemma validate_url_dns:
  "parse raw = Inr u \<Longrightarrow> validate_url parse p raw = Some e \<Longrightarrow> as_dns_error e = None"
  by (auto simp: validate_url_def Let_def split: if_splits option.splits dest: check_ip_dns)

definition not_found :: "go_err \<Rightarrow> bool" where
  "not_found e \<longleftrightarrow> (case as_dns_error e of Some (nf, _) \<Rightarrow> nf | None \<Rightarrow> False)"

lemma validate_url_resolved_cases:
  assumes "parse raw = Inr u"
  shows "validate_url_resolved parse dl p raw =
     (case validate_url parse p raw of
        Some e \<Rightarrow> Some e
      | None \<Rightarrow> if is_literal u then None
          else (case lookup_of dl p (lower_host (hostname u)) of
              Inl e \<Rightarrow> Some (errorf_w ''cannot resolve host'' e)
            | Inr [] \<Rightarrow> Some (errorf ''cannot resolve host: resolver returned no addresses'')
            | Inr as \<Rightarrow> check_all p as))"
proof -
  have look: "(case p of
        Some q \<Rightarrow> (case policy_resolver q of Some r \<Rightarrow> lookup_ip_addr r | None \<Rightarrow> dl)
      | None \<Rightarrow> dl) = lookup_of dl p"
    by (auto simp: lookup_of_def split: option.split)
  show ?thesis
    using assms look by (auto simp: validate_url_resolved_def Let_def is_literal_def host_alias_text split: option.split)
qed

lemma as_dns_error_errorf [simp]: "as_dns_error (errorf m) = None"
  by (simp add: as_dns_error_def errorf_def)

lemma not_found_simps [simp]:
  "\<not> not_found (errorf m)" "not_found (errorf_w m e) = not_found e"
  by (simp_all add: not_found_def)

text \<open>A denial that reads as ``no such host'' comes from the lookup, after every static check.\<close>

lemma resolved_not_found:
  assumes u: "parse raw = Inr u" and e: "validate_url_resolved parse dl p raw = Some e"
  shows "not_found e \<longleftrightarrow> url_ok (effective_policy p) u \<and> \<not> is_literal u
     \<and> (case lookup_of dl p (lower_host (hostname u)) of Inl e \<Rightarrow> not_found e | Inr _ \<Rightarrow> False)"
proof (cases "validate_url parse p raw")
  case None
  then have "url_ok (effective_policy p) u" using u by (simp add: validate_url_iff)
  with None e show ?thesis
    unfolding validate_url_resolved_cases [of parse raw u dl p, OF u]
    by (auto simp: not_found_def dest: check_all_dns check_ip_dns
        split: if_splits sum.splits list.splits option.splits)
next
  case (Some e')
  then have "\<not> url_ok (effective_policy p) u" using u validate_url_iff [of parse p raw] by simp
  moreover have "e' = e" using Some e by (simp add: validate_url_resolved_cases [of parse raw u dl p, OF u])
  ultimately show ?thesis using validate_url_dns [of parse raw u p, OF u Some] by (simp add: not_found_def)
qed

text \<open>
  C26: Without a cached verdict, \<open>validateProxiedTarget\<close> accepts exactly the targets
  whose URL passes and whose host is a permitted literal or resolves to permitted addresses only,
  plus, when the policy trusts the proxy's resolution, names that do not exist.
\<close>

theorem proxied_target_exact:
  assumes "parse raw = Inr u" and "cached_verdict (lower_host (hostname u)) now c = None"
  shows "fst (validate_proxied_target parse dl p (u, raw) now c) = None \<longleftrightarrow>
     url_ok p u \<and> (if is_literal u then True
       else (case lookup_of dl (Some p) (lower_host (hostname u)) of
            Inl e \<Rightarrow> trust_proxy_resolution p \<and> not_found e
          | Inr as \<Rightarrow> as \<noteq> [] \<and> list_all (permitted p) as))"
proof -
  let ?v = "validate_url_resolved parse dl (Some p) raw"
  have chk: "fst (check (lower_host (hostname u)) now ?v c) = ?v"
    using assms(2) by (simp add: check_def)
  have "fst (validate_proxied_target parse dl p (u, raw) now c) = None \<longleftrightarrow>
      (case ?v of None \<Rightarrow> True | Some e \<Rightarrow> trust_proxy_resolution p \<and> not_found e)"
    using chk by (auto simp: validate_proxied_target_def not_found_def
        split: prod.splits option.splits)
  also have "\<dots> \<longleftrightarrow> ?v = None \<or> trust_proxy_resolution p \<and> (\<exists>e. ?v = Some e \<and> not_found e)"
    by (auto split: option.split)
  finally show ?thesis
    using validate_url_resolved_iff [of parse dl "Some p" raw]
      resolved_not_found [of parse raw u dl "Some p", OF assms(1)] assms(1)
    by (auto simp: effective_policy_def all_permitted_def split: sum.splits)
qed

theorem proxied_target_exact_witness:
  "fst (validate_proxied_target
      (\<lambda>s. Inr \<lparr>url_scheme = ''https'', url_host = s, url_path = []\<rparr>)
      (\<lambda>h. Inr [[8, 8, 8, 8]]) default_ip_policy
      (\<lparr>url_scheme = ''https'', url_host = ''example.com'', url_path = []\<rparr>, ''example.com'')
      0 empty_target_cache) = None"
  by (subst proxied_target_exact) (simp add: cached_verdict_def empty_target_cache_def, code_simp)+

end
