(* ===== verification/DialPolicy.thy ===== *)
theory DialPolicy
  imports TargetCache
begin

text \<open>
  Enforcement of the policy by the transports of \<open>client.go\<close>: the proxy and dial hooks that
  \<open>policyTransport\<close> installs, the check of a connection a caller's dialer made, the
  fallback for transports without a dialer, and the choice between them. \<open>net.Dialer\<close> and
  the base transports are parameters.
\<close>

section \<open>Connections\<close>

text \<open>\<open>None\<close> is a nil \<open>net.IP\<close>; an address of another type has its text.\<close>

datatype net_addr =
    TCPAddr "ip option"
  | UDPAddr "ip option"
  | IPAddr "ip option"
  | UnixAddr string
  | OtherAddr string

record conn =
  conn_id :: nat
  remote_addr :: net_addr

text \<open>What a dial function returns, and the connections it closed on the way.\<close>

type_synonym dial_result = "(conn option \<times> go_err option) \<times> conn list"

definition remote_ip :: "conn \<Rightarrow> ip option" where
  "remote_ip c =
     (case remote_addr c of
        TCPAddr i \<Rightarrow> i
      | UDPAddr i \<Rightarrow> i
      | IPAddr i \<Rightarrow> i
      | UnixAddr s \<Rightarrow> (case split_host_port s of None \<Rightarrow> None | Some (h, _) \<Rightarrow> parse_ip h)
      | OtherAddr s \<Rightarrow> (case split_host_port s of None \<Rightarrow> None | Some (h, _) \<Rightarrow> parse_ip h))"

definition check_dialed_conn :: "conn option \<Rightarrow> ip_policy \<Rightarrow> dial_result" where
  "check_dialed_conn cn p =
     (case cn of
        None \<Rightarrow> ((None, Some (policy_err ''dialer returned no connection and no error'')), [])
      | Some c \<Rightarrow>
          (case remote_addr c of
             UnixAddr _ \<Rightarrow> ((Some c, None), [])
           | _ \<Rightarrow>
               (case remote_ip c of
                  None \<Rightarrow> ((None, Some (policy_err ''cannot determine the address dialed, so it cannot be checked'')), [c])
                | Some ip \<Rightarrow>
                    (case check_ip (Some p) ip of
                       Some e \<Rightarrow> ((None, Some e), [c])
                     | None \<Rightarrow> ((Some c, None), [])))))"

section \<open>Hooks\<close>

text \<open>
  The marker a request's context carries: absent, or present with its \<open>proxied\<close> flag. A
  request is its URL and the text of it. The hooks of an \<open>http.Transport\<close> of a caller and its
  legacy ones; nil hooks are \<open>None\<close>. The proxy hook of the clone the package makes of it also
  reads and writes the request's marker and the clone's verdict cache.
\<close>

type_synonym marker = "bool option"
type_synonym request_url = "url \<times> string"

record transport =
  proxy :: "(request_url \<Rightarrow> url option \<times> go_err option) option"
  dial_context :: "(marker \<Rightarrow> string \<Rightarrow> string \<Rightarrow> dial_result) option"
  dial_tls_context :: "(marker \<Rightarrow> string \<Rightarrow> string \<Rightarrow> dial_result) option"
  legacy_dial :: "(string \<Rightarrow> string \<Rightarrow> dial_result) option"
  legacy_dial_tls :: "(string \<Rightarrow> string \<Rightarrow> dial_result) option"

record clone_transport =
  clone_proxy :: "(request_url \<Rightarrow> marker \<Rightarrow> instant \<Rightarrow> target_cache
    \<Rightarrow> (url option \<times> go_err option) \<times> marker \<times> target_cache) option"
  clone_dial_context :: "(marker \<Rightarrow> string \<Rightarrow> string \<Rightarrow> dial_result) option"
  clone_dial_tls_context :: "(marker \<Rightarrow> string \<Rightarrow> string \<Rightarrow> dial_result) option"
  clone_dial :: "(string \<Rightarrow> string \<Rightarrow> dial_result) option"
  clone_dial_tls :: "(string \<Rightarrow> string \<Rightarrow> dial_result) option"

type_synonym dialer = "(string \<Rightarrow> go_err option) option \<Rightarrow> string \<Rightarrow> string \<Rightarrow> dial_result"

definition caller_dial :: "transport \<Rightarrow> (marker \<Rightarrow> string \<Rightarrow> string \<Rightarrow> dial_result) option" where
  "caller_dial t =
     (case dial_context t of
        Some d \<Rightarrow> Some d
      | None \<Rightarrow> (case legacy_dial t of Some l \<Rightarrow> Some (\<lambda>_ n a. l n a) | None \<Rightarrow> None))"

definition caller_dial_tls :: "transport \<Rightarrow> (marker \<Rightarrow> string \<Rightarrow> string \<Rightarrow> dial_result) option" where
  "caller_dial_tls t =
     (case dial_tls_context t of
        Some d \<Rightarrow> Some d
      | None \<Rightarrow> (case legacy_dial_tls t of Some l \<Rightarrow> Some (\<lambda>_ n a. l n a) | None \<Rightarrow> None))"

text \<open>The proxy hook: the proxy it selects or an error, the marker and the verdict cache after it.\<close>

definition policy_proxy ::
    "(request_url \<Rightarrow> url option \<times> go_err option) \<Rightarrow> url_parser \<Rightarrow> (string \<Rightarrow> go_err + ip list)
      \<Rightarrow> ip_policy \<Rightarrow> request_url \<Rightarrow> marker \<Rightarrow> instant \<Rightarrow> target_cache
      \<Rightarrow> (url option \<times> go_err option) \<times> marker \<times> target_cache" where
  "policy_proxy proxy_for parse default_lookup p req m now cache =
     (case proxy_for req of
        (u, e) \<Rightarrow>
          if e \<noteq> None \<or> u = None then ((u, e), m, cache)
          else (case validate_proxied_target parse default_lookup p req now cache of
              (Some err, cache') \<Rightarrow> ((None, Some err), m, cache')
            | (None, cache') \<Rightarrow> ((u, None), map_option (\<lambda>_. True) m, cache')))"

definition proxied :: "marker \<Rightarrow> bool" where
  "proxied m \<longleftrightarrow> (case m of None \<Rightarrow> False | Some b \<Rightarrow> b)"

definition and_then_check :: "dial_result \<Rightarrow> ip_policy \<Rightarrow> dial_result" where
  "and_then_check r p =
     (case check_dialed_conn (fst (fst r)) p of (res, cl) \<Rightarrow> (res, snd r @ cl))"

definition policy_dial_context ::
    "dialer \<Rightarrow> transport \<Rightarrow> ip_policy \<Rightarrow> marker \<Rightarrow> string \<Rightarrow> string \<Rightarrow> dial_result" where
  "policy_dial_context net_dial t p m network addr =
     (case caller_dial t of
        Some d \<Rightarrow>
          (let r = d m network addr
           in if snd (fst r) \<noteq> None \<or> proxied m then r else and_then_check r p)
      | None \<Rightarrow>
          if proxied m then net_dial None network addr
          else net_dial (Some (control_func (Some p))) network addr)"

definition policy_dial_tls ::
    "(marker \<Rightarrow> string \<Rightarrow> string \<Rightarrow> dial_result) \<Rightarrow> ip_policy \<Rightarrow> marker \<Rightarrow> string \<Rightarrow> string \<Rightarrow> dial_result"
  where
  "policy_dial_tls d p m network addr =
     (let r = d m network addr
      in if snd (fst r) \<noteq> None then r
         else if proxied m then r
         else and_then_check r p)"

definition policy_transport ::
    "dialer \<Rightarrow> url_parser \<Rightarrow> (string \<Rightarrow> go_err + ip list) \<Rightarrow> transport \<Rightarrow> ip_policy \<Rightarrow> clone_transport"
  where
  "policy_transport net_dial parse default_lookup t p =
     \<lparr>clone_proxy = map_option (\<lambda>proxy_for. policy_proxy proxy_for parse default_lookup p) (proxy t),
      clone_dial_context = Some (policy_dial_context net_dial t p),
      clone_dial_tls_context = map_option (\<lambda>d. policy_dial_tls d p) (caller_dial_tls t),
      clone_dial = None, clone_dial_tls = None\<rparr>"

section \<open>Round trips\<close>

text \<open>
  What \<open>http.Transport\<close> does with such hooks to get a connection for a request. It calls
  \<open>Proxy\<close>; the peer to dial is the proxy, if that gives one, and otherwise the target.
  For an https peer it dials with \<open>DialTLSContext\<close> or the legacy \<open>DialTLS\<close>, when one
  is set, and otherwise with \<open>DialContext\<close>, the legacy \<open>Dial\<close> or, without hooks, a zero
  \<open>net.Dialer\<close>, always on the network \<open>tcp\<close>. \<open>addr_of\<close> is the host and port
  of a URL. The result is the connection the request is sent on, the proxy in use, and the marker
  and the verdict cache afterwards.
\<close>

definition transport_dial ::
    "dialer \<Rightarrow> clone_transport \<Rightarrow> bool \<Rightarrow> marker \<Rightarrow> string \<Rightarrow> dial_result" where
  "transport_dial net_dial tr https m addr =
     (case (if https then clone_dial_tls_context tr else None) of
        Some d \<Rightarrow> d m ''tcp'' addr
      | None \<Rightarrow>
          (case (if https then clone_dial_tls tr else None) of
             Some d \<Rightarrow> d ''tcp'' addr
           | None \<Rightarrow>
               (case clone_dial_context tr of
                  Some d \<Rightarrow> d m ''tcp'' addr
                | None \<Rightarrow>
                    (case clone_dial tr of
                       Some d \<Rightarrow> d ''tcp'' addr
                     | None \<Rightarrow> net_dial None ''tcp'' addr))))"

definition transport_connect ::
    "dialer \<Rightarrow> clone_transport \<Rightarrow> (url \<Rightarrow> string) \<Rightarrow> request_url \<Rightarrow> marker \<Rightarrow> instant \<Rightarrow> target_cache
      \<Rightarrow> dial_result \<times> url option \<times> marker \<times> target_cache" where
  "transport_connect net_dial tr addr_of req m now cache =
     (case (case clone_proxy tr of
              None \<Rightarrow> ((None, None), m, cache)
            | Some hook \<Rightarrow> hook req m now cache) of
        ((via, e), m', cache') \<Rightarrow>
          (case e of
             Some err \<Rightarrow> (((None, Some err), []), None, m', cache')
           | None \<Rightarrow>
               (let peer = (case via of None \<Rightarrow> fst req | Some proxy_url \<Rightarrow> proxy_url)
                in (transport_dial net_dial tr (url_scheme peer = ''https'') m' (addr_of peer),
                    via, m', cache'))))"

text \<open>\<open>markingTransport.RoundTrip\<close> hands the request on with a fresh marker attached.\<close>

definition fresh_marker :: marker where
  "fresh_marker = Some False"

definition marking_connect ::
    "dialer \<Rightarrow> clone_transport \<Rightarrow> (url \<Rightarrow> string) \<Rightarrow> request_url \<Rightarrow> instant \<Rightarrow> target_cache
      \<Rightarrow> dial_result \<times> url option \<times> marker \<times> target_cache" where
  "marking_connect net_dial tr addr_of req now cache =
     transport_connect net_dial tr addr_of req fresh_marker now cache"

text \<open>
  Transports without a dialer to hook. A round tripper answers with a response or an error.
\<close>

definition url_policy_round_trip ::
    "url_parser \<Rightarrow> (string \<Rightarrow> go_err + ip list) \<Rightarrow> ip_policy \<Rightarrow> (request_url \<Rightarrow> 'r option \<times> go_err option)
      \<Rightarrow> request_url \<Rightarrow> 'r option \<times> go_err option" where
  "url_policy_round_trip parse default_lookup p base req =
     (case validate_url_resolved parse default_lookup (Some p) (snd req) of
        Some e \<Rightarrow> (None, Some e)
      | None \<Rightarrow> base req)"

datatype 'b round_tripper = HttpTransport transport | OtherTripper 'b

datatype 'b base_transport =
    MarkingTransport clone_transport
  | URLPolicyTransport "'b round_tripper" ip_policy

definition new_base_transport ::
    "dialer \<Rightarrow> url_parser \<Rightarrow> (string \<Rightarrow> go_err + ip list) \<Rightarrow> 'b round_tripper
      \<Rightarrow> 'b round_tripper option \<Rightarrow> ip_policy \<Rightarrow> 'b round_tripper option \<Rightarrow> 'b base_transport" where
  "new_base_transport net_dial parse default_lookup default_transport configured p fallback =
     (case configured of
        Some (HttpTransport t) \<Rightarrow> MarkingTransport (policy_transport net_dial parse default_lookup t p)
      | Some (OtherTripper b) \<Rightarrow> URLPolicyTransport (OtherTripper b) p
      | None \<Rightarrow>
          (case default_transport of
             HttpTransport t \<Rightarrow> MarkingTransport (policy_transport net_dial parse default_lookup t p)
           | OtherTripper b \<Rightarrow>
               (case fallback of
                  Some f \<Rightarrow> URLPolicyTransport f p
                | None \<Rightarrow> URLPolicyTransport (OtherTripper b) p)))"

text \<open>The transport whose idle connections \<open>Close\<close> may close: the clone, if there is one.\<close>

definition idle_closer :: "'b base_transport \<Rightarrow> clone_transport option" where
  "idle_closer b = (case b of MarkingTransport t \<Rightarrow> Some t | URLPolicyTransport _ _ \<Rightarrow> None)"

section \<open>Guarded connections\<close>

definition judged_conn :: "ip_policy \<Rightarrow> conn \<Rightarrow> bool" where
  "judged_conn p c \<longleftrightarrow>
     (case remote_addr c of UnixAddr _ \<Rightarrow> True
      | _ \<Rightarrow> (case remote_ip c of None \<Rightarrow> False | Some ip \<Rightarrow> permitted p ip))"

text \<open>
  \<open>net.Dialer\<close> calls its \<open>Control\<close> hook with the host and port, as
  \<open>JoinHostPort\<close> writes them, of every TCP connection before it is made, and makes it only if
  the hook agrees. The peer then has that address, in either of the two lengths an IPv4 address has,
  with one documented exception: for an unspecified address, or an empty host, the dialer connects
  to the local system, whose addresses are \<open>own\<close>.
\<close>

definition unspecified :: "ip \<Rightarrow> bool" where
  "unspecified ip \<longleftrightarrow> to16 ip = Some (ipv4 0 0 0 0) \<or> to16 ip = Some (replicate 16 0)"

definition dials :: "(ip \<Rightarrow> bool) \<Rightarrow> string \<Rightarrow> ip \<Rightarrow> bool" where
  "dials own h ip \<longleftrightarrow>
     (case parse_ip (strip_zone h) of
        Some ip0 \<Rightarrow> to16 ip = to16 ip0 \<or> unspecified ip0 \<and> own ip
      | None \<Rightarrow> h = [] \<and> own ip)"

definition dialer_honours_control :: "(ip \<Rightarrow> bool) \<Rightarrow> dialer \<Rightarrow> bool" where
  "dialer_honours_control own net_dial \<longleftrightarrow>
     (\<forall>ctl a c cl. net_dial (Some ctl) ''tcp'' a = ((Some c, None), cl) \<longrightarrow>
        (\<exists>h pt ip. ctl (join_host_port h pt) = None \<and> plain_host h \<and> plain_port pt
           \<and> remote_addr c = TCPAddr (Some ip) \<and> dials own h ip))"

text \<open>
  The connections a transport of a caller may get under a policy: of the caller's own dialers those
  the policy permits, and Unix sockets; of the package's dialer those the policy permits, and the
  local system where the policy permits an unspecified address.
\<close>

definition peer_guarded :: "(ip \<Rightarrow> bool) \<Rightarrow> transport \<Rightarrow> ip_policy \<Rightarrow> conn \<Rightarrow> bool" where
  "peer_guarded own t p c \<longleftrightarrow>
     (case remote_addr c of
        UnixAddr _ \<Rightarrow> caller_dial t \<noteq> None \<or> caller_dial_tls t \<noteq> None
      | _ \<Rightarrow>
          (case remote_ip c of
             None \<Rightarrow> False
           | Some ip \<Rightarrow> permitted p ip
               \<or> (caller_dial t = None \<and> own ip \<and> (\<exists>ip0. unspecified ip0 \<and> permitted p ip0))))"

lemma check_dialed_conn_result:
  "case check_dialed_conn (Some c) p of
     ((Some c', None), cl) \<Rightarrow> c' = c \<and> judged_conn p c \<and> cl = []
   | ((Some c', Some e), cl) \<Rightarrow> False
   | ((None, Some e), cl) \<Rightarrow> errors_is e ErrBlockedByPolicy \<and> \<not> judged_conn p c \<and> cl = [c]
   | ((None, None), cl) \<Rightarrow> False"
proof (cases "remote_ip c")
  case None
  then show ?thesis
    by (cases "remote_addr c") (auto simp: check_dialed_conn_def judged_conn_def policy_err_def)
next
  case (Some ip)
  show ?thesis
  proof (cases "check_ip (Some p) ip")
    case None
    then have "permitted p ip" by (simp add: check_ip_permitted effective_policy_def)
    with None Some show ?thesis
      by (cases "remote_addr c") (auto simp: check_dialed_conn_def judged_conn_def)
  next
    case (Some e)
    then have "\<not> permitted p ip" using check_ip_permitted [of "Some p" ip]
      by (simp add: effective_policy_def)
    with Some \<open>remote_ip c = Some ip\<close> check_ip_blocked [of "Some p" ip e] show ?thesis
      by (cases "remote_addr c") (auto simp: check_dialed_conn_def judged_conn_def)
  qed
qed

lemma check_dialed_conn_ok: "check_dialed_conn cn p = ((Some c, None), cl) \<Longrightarrow> judged_conn p c"
  using check_dialed_conn_result [where c = "the cn" and p = p]
  by (cases cn) (auto simp: check_dialed_conn_def split: if_splits)

lemma and_then_check_ok: "and_then_check r p = ((Some c, None), cl) \<Longrightarrow> judged_conn p c"
  by (auto simp: and_then_check_def split: prod.splits dest: check_dialed_conn_ok)

lemma permitted_to16:
  assumes "to16 ip = to16 ip0"
  shows "permitted p ip = permitted p ip0"
proof (cases "to16 ip0")
  case None
  with assms show ?thesis by (auto simp: to16_None_iff permitted_def)
next
  case (Some w)
  then have eq: "to4 ip = to4 ip0" "to4 ip0 = None \<longrightarrow> ip = ip0"
    using assms by (auto simp: to16_def to4_def v4_in_v6_prefix_def split: if_splits)
  then show ?thesis
    using permitted_to4 [of ip _ p] permitted_to4 [of ip0 _ p] by (cases "to4 ip0") auto
qed

lemma default_not_unspecified: "unspecified ip \<Longrightarrow> \<not> permitted default_ip_policy ip"
proof -
  have no: "\<not> permitted default_ip_policy (ipv4 0 0 0 0)" "\<not> permitted default_ip_policy (replicate 16 0)"
    by code_simp+
  have "to16 (ipv4 0 0 0 0) = Some (ipv4 0 0 0 0)" "to16 (replicate 16 0) = Some (replicate 16 0)"
    by code_simp+
  then show "\<not> permitted default_ip_policy ip" if "unspecified ip"
    using that no permitted_to16 [of ip "ipv4 0 0 0 0"] permitted_to16 [of ip "replicate 16 0"]
    by (auto simp: unspecified_def)
qed

lemma judged_peer_guarded:
  assumes "judged_conn p c" and "caller_dial t \<noteq> None \<or> caller_dial_tls t \<noteq> None"
  shows "peer_guarded own t p c"
  using assms by (auto simp: judged_conn_def peer_guarded_def split: net_addr.splits option.splits)

lemma control_guarded:
  assumes "dialer_honours_control own net_dial" and "caller_dial t = None"
    and "net_dial (Some (control_func (Some p))) ''tcp'' a = ((Some c, None), cl)"
  shows "peer_guarded own t p c"
proof -
  obtain h pt ip where ctl: "control_func (Some p) (join_host_port h pt) = None"
    and h: "plain_host h" "plain_port pt"
    and c: "remote_addr c = TCPAddr (Some ip)" and dials: "dials own h ip"
    using assms(1,3) unfolding dialer_honours_control_def by blast
  from ctl obtain ip0 where ip0: "parse_ip (strip_zone h) = Some ip0" "permitted p ip0"
    by (auto simp: control_func_iff split_join_host_port [OF h] effective_policy_def split: option.splits)
  with dials permitted_to16 [of ip ip0 p] have "permitted p ip \<or> unspecified ip0 \<and> own ip"
    by (auto simp: dials_def)
  with c ip0(2) assms(2) show ?thesis by (auto simp: peer_guarded_def remote_ip_def)
qed

lemma policy_dial_context_guarded:
  assumes "dialer_honours_control own net_dial" "\<not> proxied m"
    and "policy_dial_context net_dial t p m ''tcp'' a = ((Some c, None), cl)"
  shows "peer_guarded own t p c"
proof (cases "caller_dial t")
  case None
  with assms control_guarded [OF assms(1) None] show ?thesis by (simp add: policy_dial_context_def)
next
  case (Some d)
  with assms have "judged_conn p c"
    by (auto simp: policy_dial_context_def Let_def split: if_splits intro: and_then_check_ok)
  with Some show ?thesis by (simp add: judged_peer_guarded)
qed

lemma policy_dial_tls_judged:
  assumes "\<not> proxied m" and "policy_dial_tls d p m n a = ((Some c, None), cl)"
  shows "judged_conn p c"
  using assms
  by (auto simp: policy_dial_tls_def Let_def split: if_splits intro: and_then_check_ok)

lemma transport_dial_guarded:
  assumes "dialer_honours_control own net_dial" "\<not> proxied m"
    and "transport_dial net_dial (policy_transport net_dial parse dl t p) https m a = ((Some c, None), cl)"
  shows "peer_guarded own t p c"
proof (cases "https \<and> caller_dial_tls t \<noteq> None")
  case True
  then obtain d where "caller_dial_tls t = Some d" by blast
  with assms True policy_dial_tls_judged [of m d p] show ?thesis
    by (auto simp: transport_dial_def policy_transport_def intro: judged_peer_guarded)
next
  case False
  then have "policy_dial_context net_dial t p m ''tcp'' a = ((Some c, None), cl)"
    using assms(3) by (auto simp: transport_dial_def policy_transport_def split: if_splits)
  with assms(1,2) show ?thesis by (rule policy_dial_context_guarded)
qed

lemma fresh_marker_proxied [simp]: "\<not> proxied fresh_marker"
  by (simp add: fresh_marker_def proxied_def)

lemma policy_proxy_outcome:
  assumes "policy_proxy f parse dl p req m now cache = ((via, None), m', cache')"
  shows "case via of None \<Rightarrow> m' = m
    | Some u \<Rightarrow> f req = (Some u, None) \<and> fst (validate_proxied_target parse dl p req now cache) = None"
  using assms by (auto simp: policy_proxy_def split: prod.splits option.splits if_splits)

lemma marking_connect_guarded:
  assumes d: "dialer_honours_control own net_dial"
    and run: "marking_connect net_dial (policy_transport net_dial parse dl t p) addr_of req now cache =
      (((Some c, None), cl), via, m, cache')"
  shows "case via of
      Some proxy_url \<Rightarrow> fst (validate_proxied_target parse dl p req now cache) = None
    | None \<Rightarrow> peer_guarded own t p c"
proof (cases "proxy t")
  case None
  with run transport_dial_guarded [OF d fresh_marker_proxied] show ?thesis
    by (auto simp: marking_connect_def transport_connect_def policy_transport_def Let_def)
next
  case (Some f)
  obtain u e m' cache'' where f: "policy_proxy f parse dl p req fresh_marker now cache = ((u, e), m', cache'')"
    by (metis surj_pair)
  with run Some have "e = None" "u = via"
    and dial: "transport_dial net_dial (policy_transport net_dial parse dl t p)
      (url_scheme (case via of None \<Rightarrow> fst req | Some pu \<Rightarrow> pu) = ''https'') m'
      (addr_of (case via of None \<Rightarrow> fst req | Some pu \<Rightarrow> pu)) = ((Some c, None), cl)"
    by (auto simp: marking_connect_def transport_connect_def policy_transport_def Let_def
        split: option.splits)
  with f policy_proxy_outcome [of f parse dl p req fresh_marker now cache] 
    transport_dial_guarded [OF d _ dial]
  show ?thesis by (cases via) auto
qed

section \<open>Properties\<close>

text \<open>
  C4: A request through the transport \<open>policyTransport\<close> makes gets a connection to a
  proxy only after its target was validated. Without a proxy, whichever of the caller's or the
  package's dialers made the connection, its peer is one the policy permits, or else a Unix socket
  a dialer of the caller chose, or the local system, reached through an unspecified address the
  policy permits.
\<close>

theorem connection_guarded:
  assumes d: "dialer_honours_control own net_dial"
    and run: "marking_connect net_dial (policy_transport net_dial parse dl t p) addr_of req now cache =
      (((Some c, None), cl), via, m, cache')"
  shows "case via of
      Some proxy_url \<Rightarrow> fst (validate_proxied_target parse dl p req now cache) = None
    | None \<Rightarrow>
        (case remote_addr c of
           UnixAddr _ \<Rightarrow> caller_dial t \<noteq> None \<or> caller_dial_tls t \<noteq> None
         | _ \<Rightarrow>
             (case remote_ip c of
                None \<Rightarrow> False
              | Some ip \<Rightarrow> permitted p ip
                  \<or> (caller_dial t = None \<and> own ip \<and> (\<exists>ip0. unspecified ip0 \<and> permitted p ip0))))"
  using marking_connect_guarded [OF d run] unfolding peer_guarded_def .

text \<open>
  A dialer whose only name server knows one address, which it asks its hook about. It reaches the
  loopback address for an unspecified one.
\<close>

definition example_conn :: conn where
  "example_conn = \<lparr>conn_id = 0, remote_addr = TCPAddr (Some (ipv4 93 184 216 34))\<rparr>"

definition local_conn :: conn where
  "local_conn = \<lparr>conn_id = 1, remote_addr = TCPAddr (Some (ipv4 127 0 0 1))\<rparr>"

definition example_dialer :: dialer where
  "example_dialer ctl n a =
     (let (h, c) = (if a = ''0.0.0.0:80'' then (''0.0.0.0'', local_conn) else (''93.184.216.34'', example_conn))
      in case (case ctl of None \<Rightarrow> None | Some f \<Rightarrow> f (join_host_port h ''80'')) of
           Some e \<Rightarrow> ((None, Some e), [])
         | None \<Rightarrow> ((Some c, None), []))"

abbreviation "loopback_only ip \<equiv> ip = ipv4 127 0 0 1"

definition example_transport :: transport where
  "example_transport =
     \<lparr>proxy = Some (\<lambda>_. (None, None)), dial_context = None, dial_tls_context = None,
      legacy_dial = None, legacy_dial_tls = None\<rparr>"

lemma example_dialer_honours: "dialer_honours_control loopback_only example_dialer"
proof -
  have h: "plain_host ''93.184.216.34''" "plain_host ''0.0.0.0''" "plain_port ''80''"
    by code_simp+
  have "dials loopback_only ''93.184.216.34'' (ipv4 93 184 216 34)"
    "dials loopback_only ''0.0.0.0'' (ipv4 127 0 0 1)"
    by code_simp+
  with h show ?thesis
    unfolding dialer_honours_control_def example_dialer_def Let_def
    by (auto simp: example_conn_def local_conn_def split: option.splits if_splits)
qed

abbreviation "plain_url h \<equiv> \<lparr>url_scheme = ''http'', url_host = h, url_path = []\<rparr>"

lemma example_connect:
  "marking_connect example_dialer
     (policy_transport example_dialer (\<lambda>s. Inr (plain_url s)) (\<lambda>_. Inr []) example_transport default_ip_policy)
     url_host (plain_url ''example.com:80'', ''example.com:80'') 0 empty_target_cache =
   (((Some example_conn, None), []), None, fresh_marker, empty_target_cache)"
  by code_simp

theorem connection_guarded_witness: "permitted default_ip_policy (ipv4 93 184 216 34)"
  using connection_guarded [OF example_dialer_honours example_connect] default_not_unspecified
  by (auto simp: example_conn_def remote_ip_def)

text \<open>
  The exception for the local system is real: a policy that permits 0.0.0.0/8, but no loopback
  address, lets the package's dialer reach the loopback address.
\<close>

lemma unspecified_exception_reaches_loopback:
  "let p = default_ip_policy\<lparr>allowed_cidrs := [Some (v4net 0 0 0 0 255 0 0 0)]\<rparr>
   in fst (marking_connect example_dialer
        (policy_transport example_dialer (\<lambda>s. Inr (plain_url s)) (\<lambda>_. Inr []) example_transport p)
        url_host (plain_url ''0.0.0.0:80'', ''0.0.0.0:80'') 0 empty_target_cache) = ((Some local_conn, None), [])
      \<and> check_ip (Some p) (ipv4 127 0 0 1) \<noteq> None"
  by code_simp

text \<open>
  A connection of a caller's dialer is returned open or closed and refused, by the policy's
  judgement of its peer.
\<close>

lemma dialed_conn_kept_or_closed:
  "case check_dialed_conn (Some c) p of
     ((cn, e), cl) \<Rightarrow>
       if judged_conn p c then cn = Some c \<and> e = None \<and> cl = []
       else cn = None \<and> blocked e \<and> cl = [c]"
  using check_dialed_conn_result [where c = c and p = p]
  by (auto split: prod.splits option.splits)

text \<open>
  The fallback transport hands a request on exactly if its URL passes the resolved check.
\<close>

lemma url_policy_round_trip_guarded:
  "case parse (snd req) of
     Inl _ \<Rightarrow> fst (url_policy_round_trip parse dl p base req) = None
   | Inr u \<Rightarrow>
       if url_ok p u \<and> (is_literal u
            \<or> all_permitted p (lookup_of dl (Some p) (lower_host (hostname u))))
       then url_policy_round_trip parse dl p base req = base req
       else fst (url_policy_round_trip parse dl p base req) = None
            \<and> snd (url_policy_round_trip parse dl p base req) \<noteq> None"
  using validate_url_resolved_iff [of parse dl "Some p" "snd req"]
  by (auto simp: url_policy_round_trip_def effective_policy_def split: sum.splits option.splits)

end
