(* ===== verification/Retry.thy ===== *)
theory Retry
  imports MetricsTransport DialPolicy "HOL-Library.Word"
begin

text \<open>
  The retry policies: \<open>BuildStatusCodeCheckRetry\<close> and \<open>BuildNamedBackoff\<close>
  (\<open>helpers.go\<close>) and \<open>wrapCheckRetryWithMetrics\<close> (\<open>client.go\<close>), which every
  client installs. The default policy of \<open>retryablehttp\<close> is a parameter; the context is part
  of it.
\<close>

section \<open>Deciding on a retry\<close>

text \<open>
  What the policies read of a response: its status and the method and URL of the request it
  answers, each of which may be missing.
\<close>

record retry_response =
  rr_status :: int
  rr_request :: "(string \<times> url option) option"

type_synonym 'w check_retry =
  "retry_response option \<Rightarrow> go_err option \<Rightarrow> 'w \<Rightarrow> (bool \<times> go_err option) \<times> 'w"

definition build_status_code_check_retry :: "'w check_retry \<Rightarrow> int list \<Rightarrow> 'w check_retry" where
  "build_status_code_check_retry default_policy codes resp err w =
     (case (resp, err) of
        (Some r, None) \<Rightarrow>
          (if list_ex (\<lambda>code. rr_status r = code) codes then (True, None) else (False, None), w)
      | _ \<Rightarrow> default_policy resp err w)"

definition retry_labels :: "retry_response option \<Rightarrow> labels" where
  "retry_labels resp =
     (case resp of
        Some r \<Rightarrow>
          (case rr_request r of
             Some (meth, Some u) \<Rightarrow> (meth, extract_metric_labels u)
           | _ \<Rightarrow> (''unknown'', ''unknown'', ''/''))
      | None \<Rightarrow> (''unknown'', ''unknown'', ''/''))"

definition wrap_check_retry ::
    "'w check_retry option \<Rightarrow> 'w check_retry \<Rightarrow> 'w metrics \<Rightarrow> 'w check_retry" where
  "wrap_check_retry original default_policy m resp err w =
     (if blocked err then ((False, err), w)
      else
        (case (case original of Some f \<Rightarrow> f resp err w | None \<Rightarrow> default_policy resp err w) of
           ((should_retry, check_err), w') \<Rightarrow>
             ((should_retry, check_err),
              if should_retry then m (IncrementRetries (retry_labels resp)) w' else w')))"

section \<open>Back-off\<close>

text \<open>
  A \<open>time.Duration\<close> and an \<open>int\<close> are 64-bit words here, compared as signed numbers; products
  wrap around. A shift by a negative count panics: the result is then \<open>None\<close>.
\<close>

type_synonym int64 = "64 word"

definition backoff_wait :: "string \<Rightarrow> int64 \<Rightarrow> int64 \<Rightarrow> int64 option" where
  "backoff_wait strategy initial_wait attempt_num =
     (if strategy = ''none'' then Some initial_wait
      else if strategy = ''linear'' then Some (initial_wait * (attempt_num + 1))
      else if strategy = ''exponential''
      then (let e = (if 10 <s attempt_num then 10 else attempt_num)
            in if e <s 0 then None else Some (initial_wait * push_bit (unat e) 1))
      else Some initial_wait)"

definition clamp_wait :: "int64 \<Rightarrow> int64 \<Rightarrow> int64 \<Rightarrow> int64" where
  "clamp_wait initial_wait max_wait wait =
     (let wait = (if wait <s initial_wait then initial_wait else wait)
      in if max_wait <s wait then max_wait else wait)"

definition build_named_backoff :: "string \<Rightarrow> int64 \<Rightarrow> int64 \<Rightarrow> int64 \<Rightarrow> int64 option" where
  "build_named_backoff strategy initial_wait max_wait attempt_num =
     map_option (clamp_wait initial_wait max_wait) (backoff_wait strategy initial_wait attempt_num)"

section \<open>Facts\<close>

lemma err_chain_self: "e \<in> set (err_chain e)"
  by (induction e rule: err_chain.induct) simp_all

lemma errors_is_chain: "e \<in> set (err_chain e') \<Longrightarrow> errors_is e s \<Longrightarrow> errors_is e' s"
  by (induction e' rule: err_chain.induct) (auto simp: errors_is_def)

lemma sint_clamp:
  "sint (clamp_wait i m w) = min (sint m) (max (sint i) (sint w))"
  by (auto simp: clamp_wait_def Let_def word_sless_alt)

lemma unat_sint: "0 \<le> sint w \<Longrightarrow> unat w = nat (sint w)" for w :: int64
proof -
  assume w: "0 \<le> sint w"
  have "uint w = uint (word_of_int (sint w) :: int64)" by simp
  also have "\<dots> = sint w mod 2 ^ 64" by (simp only: uint_word_of_int) simp
  also have "\<dots> = sint w" using w sint_less [of w] by simp
  finally show ?thesis by (metis unat_eq_nat_uint)
qed

lemma backoff_None_iff:
  "build_named_backoff s i m n = None \<longleftrightarrow> s = ''exponential'' \<and> sint n < 0"
proof -
  have "(if 10 <s n then 10 else n) <s 0 \<longleftrightarrow> sint n < 0"
    by (auto simp: word_sless_alt)
  then show ?thesis by (simp add: build_named_backoff_def backoff_wait_def Let_def)
qed

lemma sint_word_of_int:
  "0 \<le> k \<Longrightarrow> k < 2 ^ 63 \<Longrightarrow> sint (word_of_int k :: int64) = k"
  by (simp add: sint_sbintrunc' signed_take_bit_int_eq_self)

lemma sint_mult_exact:
  fixes a b :: int64
  assumes "0 \<le> sint a * k" "sint a * k < 2 ^ 63" "b = word_of_int k"
  shows "sint (a * b) = sint a * k"
proof -
  have "a * b = word_of_int (sint a * k)" using assms(3) by simp
  with assms(1,2) show ?thesis by (simp only: sint_word_of_int)
qed

text \<open>The factor of an attempt, as a number.\<close>

definition backoff_factor :: "string \<Rightarrow> int \<Rightarrow> int" where
  "backoff_factor s n =
     (if s = ''linear'' then n + 1
      else if s = ''exponential'' then 2 ^ nat (min n 10)
      else 1)"

lemma backoff_wait_exact:
  assumes "0 \<le> sint n" "0 \<le> sint i" "sint i * backoff_factor s (sint n) < 2 ^ 63"
  shows "\<exists>w. backoff_wait s i n = Some w \<and> sint w = sint i * backoff_factor s (sint n)"
proof -
  consider "s = ''linear''" | "s = ''exponential''" | "s \<noteq> ''linear''" "s \<noteq> ''exponential''" by blast
  then show ?thesis
  proof cases
    case 1
    have "sint (i * (n + 1)) = sint i * (sint n + 1)"
    proof (rule sint_mult_exact)
      show "0 \<le> sint i * (sint n + 1)" using assms(1,2) by simp
      show "sint i * (sint n + 1) < 2 ^ 63" using assms(3) 1 by (simp add: backoff_factor_def)
    qed simp
    with 1 show ?thesis by (simp add: backoff_wait_def backoff_factor_def)
  next
    case 2
    let ?e = "if 10 <s n then 10 else n"
    let ?k = "2 ^ nat (min (sint n) 10) :: int"
    have e: "sint ?e = min (sint n) 10" "\<not> ?e <s 0" using assms(1) by (auto simp: word_sless_alt)
    have "0 \<le> sint ?e" unfolding e(1) using assms(1) by simp
    from unat_sint [OF this] have u: "unat ?e = nat (min (sint n) 10)" by (simp only: e(1))
    have "sint (i * push_bit (unat ?e) 1) = sint i * ?k"
    proof (rule sint_mult_exact)
      show "0 \<le> sint i * ?k" using assms(2) by simp
      show "sint i * ?k < 2 ^ 63" using assms(3) 2 by (simp add: backoff_factor_def)
      show "push_bit (unat ?e) (1 :: int64) = word_of_int ?k" unfolding u by (simp add: push_bit_eq_mult)
    qed
    with 2 e(2) show ?thesis by (simp only: backoff_wait_def backoff_factor_def Let_def) simp
  next
    case 3
    then show ?thesis by (simp add: backoff_wait_def backoff_factor_def)
  qed
qed

section \<open>Properties\<close>


text \<open>
  C13: An error that wraps a denial of the dial hook or of the check of a connection is never
  retried and reported unchanged, whatever retry policy the caller installed, and no retry is
  counted.
\<close>

theorem policy_denial_not_retried:
  assumes "e \<in> set (err_chain e')"
    and "control_func (Some p) addr = Some e \<or> snd (fst (check_dialed_conn cn p)) = Some e"
  shows "wrap_check_retry original default_policy m resp (Some e') w = ((False, Some e'), w)"
proof -
  have "blocked (Some e)" using assms(2)
  proof
    assume "control_func (Some p) addr = Some e"
    then show ?thesis using control_func_denial by fastforce
  next
    assume d: "snd (fst (check_dialed_conn cn p)) = Some e"
    show ?thesis
    proof (cases cn)
      case None
      with d show ?thesis by (auto simp: check_dialed_conn_def policy_err_def)
    next
      case (Some c)
      with d check_dialed_conn_result [where c = c and p = p] show ?thesis
        by (auto split: prod.splits option.splits)
    qed
  qed
  then have "blocked (Some e')" using assms(1) errors_is_chain by fastforce
  then show ?thesis by (simp add: wrap_check_retry_def)
qed

definition example_denial :: go_err where
  "example_denial = the (control_func (Some default_ip_policy) ''10.0.0.1:80'')"

theorem policy_denial_not_retried_witness:
  "wrap_check_retry None (\<lambda>resp err w. ((True, None), w)) noop_metrics None
      (Some (GoErr KOp ''dial'' (Some example_denial))) () =
    ((False, Some (GoErr KOp ''dial'' (Some example_denial))), ())"
proof -
  have "control_func (Some default_ip_policy) ''10.0.0.1:80'' \<noteq> None" by code_simp
  then have c: "control_func (Some default_ip_policy) ''10.0.0.1:80'' = Some example_denial"
    by (simp add: example_denial_def)
  have "example_denial \<in> set (err_chain (GoErr KOp ''dial'' (Some example_denial)))"
    using err_chain_self by simp
  from policy_denial_not_retried [OF this disjI1 [OF c]] show ?thesis .
qed

end
