(* ===== verification/Readers.thy ===== *)
theory Readers
  imports GoErrors
begin

text \<open>
  The body readers: \<open>limitedReadCloser\<close> (\<open>client.go\<close>) and \<open>gzipReadCloser\<close>
  (\<open>compression.go\<close>). A reader is a function from the length of the buffer and its state to
  the bytes it read, its error and its next state; the readers below it are parameters that honour
  the contract of \<open>io.Reader\<close>.
\<close>

section \<open>The contract of a reader\<close>

type_synonym ('b, 's) reader = "nat \<Rightarrow> 's \<Rightarrow> ('b list \<times> go_err option) \<times> 's"

text \<open>A sequence of reads with the buffer lengths of the caller: the results and the last state.\<close>

fun reads :: "('b, 's) reader \<Rightarrow> nat list \<Rightarrow> 's \<Rightarrow> ('b list \<times> go_err option) list \<times> 's" where
  "reads rd [] s = ([], s)"
| "reads rd (n # ns) s = (case rd n s of (r, s') \<Rightarrow> (case reads rd ns s' of (rs, s'') \<Rightarrow> (r # rs, s'')))"

definition delivered :: "('b list \<times> go_err option) list \<Rightarrow> 'b list" where
  "delivered rs = concat (map fst rs)"

lemma delivered_simps [simp]:
  "delivered [] = []" "delivered (r # rs) = fst r @ delivered rs"
  by (simp_all add: delivered_def)

lemma fst_reads_Cons: "fst (reads rd (n # ns) s) = fst (rd n s) # fst (reads rd ns (snd (rd n s)))"
  by (simp split: prod.split)

text \<open>A read fills at most the buffer.\<close>

locale io_reader =
  fixes rd :: "('b, 's) reader"
  assumes read_fits: "length (fst (fst (rd n s))) \<le> n"
begin

lemma read_length: "rd n s = ((bs, e), s') \<Longrightarrow> length bs \<le> n"
  using read_fits [of n s] by simp

lemma reads_fit: "length (delivered (fst (reads rd ns s))) \<le> sum_list ns"
proof (induction ns arbitrary: s)
  case (Cons n ns)
  have "length (fst (fst (rd n s))) \<le> n" by (rule read_fits)
  with Cons [of "snd (rd n s)"] show ?case by (auto split: prod.split)
qed simp

end

text \<open>
  A reader with a quota: what is left of it never grows by more than was read, and a read returns
  at most what is left.
\<close>

locale quota_reader =
  fixes rd :: "('b, 's) reader"
    and quota :: "'s \<Rightarrow> nat option"
  assumes quota_bound: "quota s = Some q \<Longrightarrow> length (fst (fst (rd n s))) \<le> q"
    and quota_step: "quota s = Some q \<Longrightarrow>
      quota (snd (rd n s)) = Some (q - length (fst (fst (rd n s))))"
begin

lemma reads_quota: "quota s = Some q \<Longrightarrow> length (delivered (fst (reads rd ns s))) \<le> q"
proof (induction ns arbitrary: s q)
  case (Cons n ns)
  have "length (fst (fst (rd n s))) \<le> q" by (rule quota_bound [OF Cons.prems])
  with Cons.IH [OF quota_step [OF Cons.prems, of n]] show ?case by (auto split: prod.split)
qed simp

end

section \<open>The limited reader\<close>

record 's limited_reader =
  lr_rc :: 's
  lr_limit :: int
  lr_read :: int

definition limited_read :: "('b, 's) reader \<Rightarrow> ('b, 's limited_reader) reader" where
  "limited_read rd n l =
     (let remaining = lr_limit l - lr_read l
      in if remaining \<le> 0 then (([], Some (err_value ErrResponseBodyTooLarge)), l)
         else (let n = (if int n > remaining then nat remaining else n)
               in case rd n (lr_rc l) of
                    ((bs, e), rc) \<Rightarrow>
                      ((bs, e), l\<lparr>lr_rc := rc, lr_read := lr_read l + int (length bs)\<rparr>)))"

definition limited_quota :: "'s limited_reader \<Rightarrow> nat option" where
  "limited_quota l = Some (nat (lr_limit l - lr_read l))"

sublocale io_reader \<subseteq> lim: quota_reader "limited_read rd" limited_quota
proof
  fix n and s :: "'s limited_reader" and q
  assume q: "limited_quota s = Some q"
  show "length (fst (fst (limited_read rd n s))) \<le> q"
    using q by (auto simp: limited_read_def limited_quota_def Let_def split: prod.split dest!: read_length)
  show "limited_quota (snd (limited_read rd n s)) = Some (q - length (fst (fst (limited_read rd n s))))"
    using q by (auto simp: limited_read_def limited_quota_def Let_def split: prod.split)
qed

section \<open>The gzip reader\<close>

text \<open>
  \<open>gzip.NewReader\<close> is a parameter: it fails or gives the state of a decoder, read by another
  parameter. \<open>gz_body\<close> is the body the decoder is made from.
\<close>

record ('s, 'z) gzip_reader =
  gz_body :: 's
  gz_zr :: "'z option"
  gz_zerr :: "go_err option"
  gz_limit :: int
  gz_bytes_read :: int

definition gzip_init :: "('s \<Rightarrow> go_err + 'z) \<Rightarrow> ('s, 'z) gzip_reader \<Rightarrow> ('s, 'z) gzip_reader" where
  "gzip_init new_reader g =
     (if gz_zr g = None \<and> gz_zerr g = None
      then (case new_reader (gz_body g) of
          Inr z \<Rightarrow> g\<lparr>gz_zr := Some z\<rparr>
        | Inl e \<Rightarrow>
            g\<lparr>gz_zerr := Some (if errors_is e EOF then e
                                 else errorf_w ''failed to decode gzip response body'' e)\<rparr>)
      else g)"

definition gzip_read ::
    "('s \<Rightarrow> go_err + 'z) \<Rightarrow> ('b, 'z) reader \<Rightarrow> ('b, ('s, 'z) gzip_reader) reader" where
  "gzip_read new_reader zrd n g0 =
     (let g = gzip_init new_reader g0
      in case gz_zerr g of
           Some e \<Rightarrow> (([], Some e), g)
         | None \<Rightarrow>
             (let remaining = gz_limit g - gz_bytes_read g
              in if gz_limit g > 0 \<and> remaining \<le> 0
                 then (([], Some (err_value ErrDecompressionBombDetected)), g)
                 else
                   (let n = (if gz_limit g > 0 \<and> int n > remaining then nat remaining else n)
                    in case zrd n (the (gz_zr g)) of
                         ((bs, e), z) \<Rightarrow>
                           ((bs, e), g\<lparr>gz_zr := Some z,
                             gz_bytes_read := gz_bytes_read g + int (length bs)\<rparr>))))"

definition gzip_quota :: "('s, 'z) gzip_reader \<Rightarrow> nat option" where
  "gzip_quota g = (if gz_limit g > 0 then Some (nat (gz_limit g - gz_bytes_read g)) else None)"

lemma gzip_init_simps [simp]:
  "gz_limit (gzip_init new_reader g) = gz_limit g"
  "gz_bytes_read (gzip_init new_reader g) = gz_bytes_read g"
  by (simp_all add: gzip_init_def split: sum.split)

sublocale io_reader \<subseteq> gz: quota_reader "gzip_read new_reader rd" gzip_quota
  for new_reader :: "'c \<Rightarrow> go_err + 's"
proof
  fix n and s :: "('c, 's) gzip_reader" and q
  assume q: "gzip_quota s = Some q"
  show "length (fst (fst (gzip_read new_reader rd n s))) \<le> q"
    using q by (auto simp: gzip_read_def gzip_quota_def Let_def
        split: prod.split option.split if_splits dest!: read_length)
  show "gzip_quota (snd (gzip_read new_reader rd n s)) =
      Some (q - length (fst (fst (gzip_read new_reader rd n s))))"
    using q by (auto simp: gzip_read_def gzip_quota_def Let_def split: prod.split option.split if_splits)
qed

section \<open>A reader of bytes in memory\<close>

text \<open>\<open>bytes.Reader\<close>, which reports the end in a read of its own.\<close>

definition mem_read :: "(char, string) reader" where
  "mem_read n s = (if s = [] then (([], Some (err_value EOF)), s) else ((take n s, None), drop n s))"

interpretation mem: io_reader mem_read
  by unfold_locales (auto simp: mem_read_def)

definition new_limited :: "'s \<Rightarrow> int \<Rightarrow> 's limited_reader" where
  "new_limited rc limit = \<lparr>lr_rc = rc, lr_limit = limit, lr_read = 0\<rparr>"

definition new_gzip :: "'s \<Rightarrow> int \<Rightarrow> ('s, 'z) gzip_reader" where
  "new_gzip body limit =
     \<lparr>gz_body = body, gz_zr = None, gz_zerr = None, gz_limit = limit, gz_bytes_read = 0\<rparr>"

section \<open>Properties\<close>

context io_reader
begin

lemma limited_total:
  "length (delivered (fst (reads (limited_read rd) ns (new_limited rc limit)))) \<le> nat limit"
  by (rule lim.reads_quota) (simp add: limited_quota_def new_limited_def)

lemma gzip_total:
  assumes "0 < limit"
  shows "length (delivered (fst (reads (gzip_read new_reader rd) ns (new_gzip body limit)))) \<le> nat limit"
  by (rule gz.reads_quota) (simp add: assms gzip_quota_def new_gzip_def)

text \<open>Within the limit the reader adds nothing.\<close>

lemma limited_within:
  assumes "\<forall>n \<in> set ns. 0 < n" "int (sum_list ns) \<le> lr_limit l - lr_read l"
  shows "fst (reads (limited_read rd) ns l) = fst (reads rd ns (lr_rc l))"
  using assms
proof (induction ns arbitrary: l)
  case (Cons n ns)
  obtain bs e rc where r: "rd n (lr_rc l) = ((bs, e), rc)" by (metis surj_pair)
  have "limited_read rd n l = ((bs, e), l\<lparr>lr_rc := rc, lr_read := lr_read l + int (length bs)\<rparr>)"
    using Cons.prems r by (auto simp: limited_read_def Let_def)
  with r read_length [OF r] Cons.prems
    Cons.IH [of "l\<lparr>lr_rc := rc, lr_read := lr_read l + int (length bs)\<rparr>"]
  show ?case by (auto split: prod.split)
qed simp

end

text \<open>
  C29: Over any underlying reader that respects the buffer, the limiting reader never delivers
  more than the limit, and reads that together stay within the limit see exactly what the
  underlying reader gives.
\<close>

theorem body_limit_enforced:
  assumes "\<And>n s. length (fst (fst (rd n s))) \<le> n"
  shows "length (delivered (fst (reads (limited_read rd) ns (new_limited rc limit)))) \<le> nat limit
    \<and> ((\<forall>n \<in> set ns. 0 < n) \<and> int (sum_list ns) \<le> limit \<longrightarrow>
         fst (reads (limited_read rd) ns (new_limited rc limit)) = fst (reads rd ns rc))"
proof -
  have r: "io_reader rd" using assms by unfold_locales
  show ?thesis
    using io_reader.limited_total [OF r] io_reader.limited_within [OF r, of ns "new_limited rc limit"]
    by (simp add: new_limited_def)
qed

theorem body_limit_enforced_witness:
  "length (delivered (fst (reads (limited_read mem_read) [2, 7, 7] (new_limited ''abcdef'' 4)))) \<le> 4"
  using body_limit_enforced [of mem_read "[2, 7, 7]" "''abcdef''" 4]
  by (simp add: mem.read_fits)

text \<open>
  A body of exactly the limit whose end arrives in a read of its own is refused at that read.
\<close>

lemma exact_body_refused:
  "fst (reads (limited_read mem_read) [length (x # xs), m]
     (new_limited (x # xs) (int (length (x # xs))))) =
   [(x # xs, None), ([], Some (err_value ErrResponseBodyTooLarge))]"
  by (simp add: limited_read_def mem_read_def new_limited_def Let_def)

text \<open>
  With a positive limit, the decompressing reader never delivers more than the limit, whatever the
  gzip stream expands to.
\<close>

lemma gzip_bomb_bounded:
  assumes "\<And>n z. length (fst (fst (zrd n z))) \<le> n" and "0 < limit"
  shows "length (delivered (fst (reads (gzip_read new_reader zrd) ns (new_gzip body limit)))) \<le> nat limit"
proof -
  have r: "io_reader zrd" using assms(1) by unfold_locales
  show ?thesis by (rule io_reader.gzip_total [OF r assms(2)])
qed

lemma gzip_bomb_bounded_witness:
  "length (delivered (fst (reads (gzip_read (\<lambda>s. Inr (concat (replicate 9 s))) mem_read) [5, 5, 5]
     (new_gzip ''ab'' 7)))) \<le> 7"
  using gzip_bomb_bounded [of mem_read 7 "\<lambda>s. Inr (concat (replicate 9 s))" "[5, 5, 5]" "''ab''"]
  by (simp add: mem.read_fits)

text \<open>Errors of the gzip header are kept.\<close>

lemma gzip_failed_reads:
  "gz_zerr g = Some e \<Longrightarrow>
     fst (reads (gzip_read new_reader zrd) ns g) = map (\<lambda>_. ([], Some e)) ns"
proof (induction ns arbitrary: g)
  case (Cons n ns)
  then have "gzip_read new_reader zrd n g = (([], Some e), g)"
    by (simp add: gzip_read_def gzip_init_def)
  with Cons show ?case unfolding fst_reads_Cons by simp
qed simp

lemma gzip_bad_header_sticky:
  assumes "new_reader body = Inl e"
  shows "fst (reads (gzip_read new_reader zrd) ns (new_gzip body limit)) =
     map (\<lambda>_. ([], Some (if errors_is e EOF then e
                           else errorf_w ''failed to decode gzip response body'' e))) ns"
proof (cases ns)
  case (Cons n ms)
  let ?e = "if errors_is e EOF then e else errorf_w ''failed to decode gzip response body'' e"
  have "gzip_read new_reader zrd n (new_gzip body limit) =
      (([], Some ?e), (new_gzip body limit)\<lparr>gz_zerr := Some ?e\<rparr>)"
    using assms by (simp add: gzip_read_def gzip_init_def new_gzip_def)
  then show ?thesis
    unfolding Cons fst_reads_Cons by (simp add: gzip_failed_reads)
qed simp

lemma gzip_bad_header_sticky_witness:
  "fst (reads (gzip_read (\<lambda>s. Inl (err_value EOF)) mem_read) [4, 4] (new_gzip [] 10)) =
     [([], Some (err_value EOF)), ([], Some (err_value EOF))]"
  using gzip_bad_header_sticky [of "\<lambda>s. Inl (err_value EOF)" "[]" "err_value EOF" mem_read "[4, 4]" 10]
  by simp

end
