(* ===== verification/Compression.thy ===== *)
theory Compression
  imports HttpTransport Readers
begin

text \<open>
  Transparent gzip (\<open>compression.go\<close>): \<open>compressionTransport.RoundTrip\<close>, which asks for
  gzip where the caller left the choice to the client and hands out a decoding body where it was
  answered with gzip.
\<close>

definition accept_encoding :: string where "accept_encoding = ''Accept-Encoding''"
definition content_encoding :: string where "content_encoding = ''Content-Encoding''"
definition content_length :: string where "content_length = ''Content-Length''"

definition adds_gzip :: "http_request \<Rightarrow> bool" where
  "adds_gzip req \<longleftrightarrow>
     header_get (rq_header req) accept_encoding = [] \<and> header_get (rq_header req) ''Range'' = []
     \<and> rq_method req \<noteq> ''HEAD''"

definition request_to_send :: "http_request \<Rightarrow> http_request" where
  "request_to_send req =
     (if adds_gzip req
      then req\<lparr>rq_header := header_set accept_encoding ''gzip'' (rq_header req)\<rparr>
      else req)"

definition decodes :: "http_request \<Rightarrow> http_response \<Rightarrow> bool" where
  "decodes req resp \<longleftrightarrow>
     \<not> (\<not> adds_gzip req \<or> rs_content_length resp = 0
        \<or> \<not> equal_fold (header_get (rs_header resp) content_encoding) ''gzip'')"

definition decoded :: "int \<Rightarrow> http_response \<Rightarrow> http_response" where
  "decoded limit resp =
     resp\<lparr>rs_body := Gunzipped (rs_body resp) limit,
       rs_header := header_del content_length (header_del content_encoding (rs_header resp)),
       rs_content_length := -1, uncompressed := True\<rparr>"

text \<open>
  A base that returns neither a response nor an error makes the code read a field of a nil
  response, unless the first operand of the condition already decides it.
\<close>

definition compression_round_trip :: "'w http_tripper \<Rightarrow> int \<Rightarrow> 'w http_tripper" where
  "compression_round_trip base limit req w =
     (case base (request_to_send req) w of
        (Panics, w') \<Rightarrow> (Panics, w')
      | (Answers r (Some e), w') \<Rightarrow> (Answers None (Some e), w')
      | (Answers None None, w') \<Rightarrow> (if adds_gzip req then Panics else Answers None None, w')
      | (Answers (Some resp) None, w') \<Rightarrow>
          (Answers (Some (if decodes req resp then decoded limit resp else resp)) None, w'))"

section \<open>Facts\<close>

lemma compression_answer:
  "base (request_to_send req) w = (Answers (Some resp) None, w') \<Longrightarrow>
     compression_round_trip base limit req w =
       (Answers (Some (if decodes req resp then decoded limit resp else resp)) None, w')"
  by (simp add: compression_round_trip_def)

text \<open>
  The client reads a decoding body through its own limiting reader, with the same limit. Both
  readers count the same bytes, so the outer one always refuses first.
\<close>

definition in_step :: "('s, 'z) gzip_reader limited_reader \<Rightarrow> bool" where
  "in_step l \<longleftrightarrow>
     gz_limit (lr_rc l) = lr_limit l \<and> gz_bytes_read (lr_rc l) = lr_read l"

definition no_bomb :: "'b list \<times> go_err option \<Rightarrow> bool" where
  "no_bomb r \<longleftrightarrow> (case snd r of None \<Rightarrow> True | Some e \<Rightarrow> \<not> errors_is e ErrDecompressionBombDetected)"

lemma gzip_init_clean:
  assumes "\<And>b e. new_reader b = Inl e \<Longrightarrow> \<not> errors_is e ErrDecompressionBombDetected"
    and "\<And>e. gz_zerr g = Some e \<Longrightarrow> \<not> errors_is e ErrDecompressionBombDetected"
    and "gz_zerr (gzip_init new_reader g) = Some e"
  shows "\<not> errors_is e ErrDecompressionBombDetected"
  using assms(2,3) assms(1) [of "gz_body g"]
  by (auto simp: gzip_init_def split: sum.splits if_splits)

lemma gzip_below_limit:
  assumes "gz_bytes_read g < gz_limit g" "int n \<le> gz_limit g - gz_bytes_read g"
    and "\<And>b e. new_reader b = Inl e \<Longrightarrow> \<not> errors_is e ErrDecompressionBombDetected"
    and "\<And>n z. no_bomb (fst (zrd n z))"
    and "\<And>e. gz_zerr g = Some e \<Longrightarrow> \<not> errors_is e ErrDecompressionBombDetected"
    and "gzip_read new_reader zrd n g = (r, g')"
  shows "no_bomb r \<and> gz_limit g' = gz_limit g
    \<and> gz_bytes_read g' = gz_bytes_read g + int (length (fst r))
    \<and> (\<forall>e. gz_zerr g' = Some e \<longrightarrow> \<not> errors_is e ErrDecompressionBombDetected)"
proof (cases "gz_zerr (gzip_init new_reader g)")
  case None
  obtain bs e z where z: "zrd n (the (gz_zr (gzip_init new_reader g))) = ((bs, e), z)"
    by (metis surj_pair)
  with assms(4) [of n "the (gz_zr (gzip_init new_reader g))"] None assms(1,2,6) show ?thesis
    by (auto simp: gzip_read_def Let_def no_bomb_def split: if_splits)
next
  case (Some e)
  with assms(6) gzip_init_clean [OF assms(3,5) Some] show ?thesis
    by (auto simp: gzip_read_def no_bomb_def)
qed

lemma shadowed_step:
  assumes "in_step l" "\<And>e. gz_zerr (lr_rc l) = Some e \<Longrightarrow> \<not> errors_is e ErrDecompressionBombDetected"
    and "\<And>b e. new_reader b = Inl e \<Longrightarrow> \<not> errors_is e ErrDecompressionBombDetected"
    and "\<And>n z. no_bomb (fst (zrd n z))"
    and "limited_read (gzip_read new_reader zrd) n l = (r, l')"
  shows "no_bomb r \<and> in_step l'
    \<and> (\<forall>e. gz_zerr (lr_rc l') = Some e \<longrightarrow> \<not> errors_is e ErrDecompressionBombDetected)"
proof (cases "lr_limit l - lr_read l \<le> 0")
  case True
  with assms(1,2,5) show ?thesis by (auto simp: limited_read_def no_bomb_def)
next
  case False
  let ?rem = "lr_limit l - lr_read l"
  let ?n = "if int n > ?rem then nat ?rem else n"
  obtain bs e g' where g: "gzip_read new_reader zrd ?n (lr_rc l) = ((bs, e), g')" by (metis surj_pair)
  have b: "gz_bytes_read (lr_rc l) < gz_limit (lr_rc l)"
    "int ?n \<le> gz_limit (lr_rc l) - gz_bytes_read (lr_rc l)"
    using False assms(1) by (auto simp: in_step_def)
  from gzip_below_limit [OF b assms(3,4,2) g] False g assms(1,5) show ?thesis
    by (auto simp: limited_read_def Let_def in_step_def)
qed

lemma shadowed_reads:
  assumes "in_step l" "\<And>e. gz_zerr (lr_rc l) = Some e \<Longrightarrow> \<not> errors_is e ErrDecompressionBombDetected"
    and "\<And>b e. new_reader b = Inl e \<Longrightarrow> \<not> errors_is e ErrDecompressionBombDetected"
    and "\<And>n z. no_bomb (fst (zrd n z))"
  shows "list_all no_bomb (fst (reads (limited_read (gzip_read new_reader zrd)) ns l))"
  using assms(1,2)
proof (induction ns arbitrary: l)
  case (Cons n ns)
  obtain r l' where s: "limited_read (gzip_read new_reader zrd) n l = (r, l')" by fastforce
  from shadowed_step [OF Cons.prems assms(3,4) s] Cons.IH [of l'] s show ?case
    by (simp add: fst_reads_Cons del: reads.simps)
qed simp

section \<open>Properties\<close>

text \<open>
  C15: The base transport is sent the request as it is, or, exactly if the caller asked for no
  encoding and no range and the method is not HEAD, the request with \<open>Accept-Encoding:
  gzip\<close> in place of that header and nothing else changed. In that case a response with a
  body answered in gzip, in any case of the letters, is handed out with a decoding body, marked
  uncompressed, of unknown length and without its encoding and length headers; any other response
  comes back as it was.
\<close>

theorem compression_exact:
  assumes "compression_round_trip base limit req w = (Answers (Some resp) None, w')"
  shows "let asks = header_get (rq_header req) ''Accept-Encoding'' = []
        \<and> header_get (rq_header req) ''Range'' = [] \<and> rq_method req \<noteq> ''HEAD'';
      sent = (if asks then req\<lparr>rq_header := (rq_header req)(''Accept-Encoding'' \<mapsto> [''gzip''])\<rparr> else req)
    in \<exists>resp0. base sent w = (Answers (Some resp0) None, w')
      \<and> resp =
         (if asks \<and> rs_content_length resp0 \<noteq> 0
             \<and> equal_fold (header_get (rs_header resp0) ''Content-Encoding'') ''gzip''
          then resp0\<lparr>rs_body := Gunzipped (rs_body resp0) limit, uncompressed := True,
            rs_content_length := -1,
            rs_header := (rs_header resp0)(''Content-Encoding'' := None, ''Content-Length'' := None)\<rparr>
          else resp0)"
  using assms
  by (auto simp: compression_round_trip_def decodes_def decoded_def request_to_send_def adds_gzip_def
      accept_encoding_def content_encoding_def content_length_def header_set_def header_del_def
      split: prod.splits rt_outcome.splits option.splits if_splits)

definition example_response :: http_response where
  "example_response =
     \<lparr>rs_status = 200, rs_header = [content_encoding \<mapsto> [''GZip'']], rs_content_length = 20,
      rs_body = NetBody 7, uncompressed = False\<rparr>"

definition example_get :: http_request where
  "example_get =
     \<lparr>rq_method = ''GET'', rq_url = \<lparr>url_scheme = ''https'', url_host = ''h'', url_path = ''/''\<rparr>,
      rq_header = Map.empty, has_body = False, rq_content_length = 0\<rparr>"

lemma fold_gzip: "equal_fold ''GZip'' ''gzip''"
  by code_simp

lemma example_asks: "adds_gzip example_get"
  by (simp add: adds_gzip_def example_get_def header_get_def)

lemma example_decodes:
  "compression_round_trip (\<lambda>_ w. (Answers (Some example_response) None, w)) 100 example_get () =
     (Answers (Some (decoded 100 example_response)) None, ())"
  by (simp add: compression_round_trip_def decodes_def example_asks fold_gzip)
    (simp add: example_response_def header_get_def fold_gzip)

theorem compression_exact_witness:
  "rs_header (decoded 100 example_response) ''Content-Encoding'' = None"
proof -
  have "header_get (rs_header example_response) ''Content-Encoding'' = ''GZip''"
    "rs_content_length example_response \<noteq> 0"
    by (simp_all add: example_response_def header_get_def content_encoding_def)
  with compression_exact [OF example_decodes] example_asks show ?thesis
    by (auto simp: adds_gzip_def accept_encoding_def fold_gzip Let_def split: if_splits)
qed

text \<open>
  C30: A body that is read through both readers, the decoding one and the client's limiting one
  with the same limit, never ends with \<open>ErrDecompressionBombDetected\<close>: the limiting
  reader refuses first, however the caller reads.
\<close>

theorem bomb_error_shadowed:
  assumes "\<And>b e. new_reader b = Inl e \<Longrightarrow> \<not> errors_is e ErrDecompressionBombDetected"
    and "\<And>n z. no_bomb (fst (zrd n z))"
  shows "list_all no_bomb
    (fst (reads (limited_read (gzip_read new_reader zrd)) ns (new_limited (new_gzip body limit) limit)))"
  by (rule shadowed_reads) (use assms in \<open>auto simp: in_step_def new_limited_def new_gzip_def\<close>)

theorem bomb_error_shadowed_witness:
  "list_all no_bomb
    (fst (reads (limited_read (gzip_read Inr mem_read)) [2, 2] (new_limited (new_gzip ''abcd'' 3) 3)))"
  by (rule bomb_error_shadowed) (auto simp: no_bomb_def mem_read_def)

end
