(* ===== verification/CacheSpec.thy ===== *)
theory CacheSpec
  imports GoErrors
begin

text \<open>
  The contract of a cache backend (\<open>httpcache.Cache\<close>) as the client relies on it: what a
  lookup returns, what a store and a deletion change. Entries are kept under the address a key
  maps to, so two keys with one address share an entry. The filesystem cache provides it.
\<close>

type_synonym bytes = string

datatype cache_op = GetOp string | SetOp string bytes | DelOp string

text \<open>The reference: a map from addresses, changed by the stores that succeeded.\<close>

fun ref_step ::
    "(string \<Rightarrow> 'a) \<Rightarrow> cache_op \<Rightarrow> bool \<Rightarrow> ('a \<Rightarrow> bytes option) \<Rightarrow> bytes option \<times> ('a \<Rightarrow> bytes option)"
  where
  "ref_step addr (GetOp k) ok m = (m (addr k), m)"
| "ref_step addr (SetOp k b) ok m = (None, if ok then m(addr k := Some b) else m)"
| "ref_step addr (DelOp k) ok m = (None, if ok then m(addr k := None) else m)"

fun ref_run ::
    "(string \<Rightarrow> 'a) \<Rightarrow> (cache_op \<times> bool) list \<Rightarrow> ('a \<Rightarrow> bytes option)
      \<Rightarrow> bytes option list \<times> ('a \<Rightarrow> bytes option)" where
  "ref_run addr [] m = ([], m)"
| "ref_run addr ((p, ok) # ps) m =
     (case ref_step addr p ok m of (d, m') \<Rightarrow>
        (case ref_run addr ps m' of (ds, m'') \<Rightarrow> (d # ds, m'')))"

text \<open>
  A backend given by its three operations, run on a sequence of calls: whether each succeeded,
  what the lookups found, the last state.
\<close>

type_synonym 's backend =
  "(string \<Rightarrow> 's \<Rightarrow> bytes option \<times> 's) \<times> (string \<Rightarrow> bytes \<Rightarrow> 's \<Rightarrow> go_err option \<times> 's)
    \<times> (string \<Rightarrow> 's \<Rightarrow> go_err option \<times> 's)"

fun op_step :: "'s backend \<Rightarrow> cache_op \<Rightarrow> 's \<Rightarrow> bool \<times> bytes option \<times> 's" where
  "op_step (get, set_entry, del) (GetOp k) s = (case get k s of (d, s') \<Rightarrow> (True, d, s'))"
| "op_step (get, set_entry, del) (SetOp k b) s = (case set_entry k b s of (e, s') \<Rightarrow> (e = None, None, s'))"
| "op_step (get, set_entry, del) (DelOp k) s = (case del k s of (e, s') \<Rightarrow> (e = None, None, s'))"

fun run_ops :: "'s backend \<Rightarrow> cache_op list \<Rightarrow> 's \<Rightarrow> bool list \<times> bytes option list \<times> 's" where
  "run_ops c [] s = ([], [], s)"
| "run_ops c (p # ps) s =
     (case op_step c p s of (b, d, s') \<Rightarrow>
        (case run_ops c ps s' of (bs, ds, s'') \<Rightarrow> (b # bs, d # ds, s'')))"

locale cache_backend =
  fixes get :: "string \<Rightarrow> 's \<Rightarrow> bytes option \<times> 's"
    and set_entry :: "string \<Rightarrow> bytes \<Rightarrow> 's \<Rightarrow> go_err option \<times> 's"
    and del :: "string \<Rightarrow> 's \<Rightarrow> go_err option \<times> 's"
    and ok :: "'s \<Rightarrow> bool"
    and addr :: "string \<Rightarrow> 'a"
    and view :: "'s \<Rightarrow> 'a \<Rightarrow> bytes option"
  assumes get_view: "ok s \<Longrightarrow> get k s = (d, s') \<Longrightarrow> d = view s (addr k) \<and> view s' = view s \<and> ok s'"
    and set_view: "ok s \<Longrightarrow> set_entry k b s = (e, s') \<Longrightarrow>
      ok s' \<and> view s' = (if e = None then (view s)(addr k := Some b) else view s)"
    and del_view: "ok s \<Longrightarrow> del k s = (e, s') \<Longrightarrow>
      ok s' \<and> view s' = (if e = None then (view s)(addr k := None) else view s)"
begin

lemma op_step_refines:
  assumes "ok s" "op_step (get, set_entry, del) p s = (b, d, s')"
  shows "ok s' \<and> ref_step addr p b (view s) = (d, view s')"
  using assms by (cases p) (auto split: prod.splits dest: get_view set_view del_view)

lemma run_ops_refines:
  assumes "ok s" "run_ops (get, set_entry, del) ps s = (bs, ds, s')"
  shows "ok s' \<and> length bs = length ps \<and> ref_run addr (zip ps bs) (view s) = (ds, view s')"
  using assms
proof (induction ps arbitrary: s bs ds)
  case (Cons p ps)
  obtain b d s1 where st: "op_step (get, set_entry, del) p s = (b, d, s1)" by (metis surj_pair)
  obtain bs' ds' where r: "run_ops (get, set_entry, del) ps s1 = (bs', ds', s')" and e: "bs = b # bs'" "ds = d # ds'"
    using Cons.prems(2) st by (auto split: prod.splits)
  from op_step_refines [OF Cons.prems(1) st] Cons.IH [OF _ r] show ?case by (simp add: e)
qed simp

lemma get_after_set:
  assumes "ok s" "set_entry k b s = (None, s')"
  shows "fst (get k s') = Some b"
proof -
  obtain d s'' where g: "get k s' = (d, s'')" by fastforce
  with get_view [OF _ g] set_view [OF assms] show ?thesis by simp
qed

lemma get_after_del:
  assumes "ok s" "del k s = (None, s')"
  shows "fst (get k s') = None"
proof -
  obtain d s'' where g: "get k s' = (d, s'')" by fastforce
  with get_view [OF _ g] del_view [OF assms] show ?thesis by simp
qed

lemma get_other_after_set:
  assumes "ok s" "set_entry k b s = (None, s')" "addr j \<noteq> addr k"
  shows "fst (get j s') = fst (get j s)"
proof -
  obtain d s'' where g: "get j s' = (d, s'')" by fastforce
  obtain d0 s0 where g0: "get j s = (d0, s0)" by fastforce
  with g get_view [OF _ g] get_view [OF assms(1) g0] set_view [OF assms(1,2)] assms(3)
  show ?thesis by simp
qed

end

end
