(* ===== verification/MemoryCache.thy ===== *)
theory MemoryCache
  imports CacheSpec HttpTransport "HOL-Library.Word"
begin

text \<open>
  The memory cache of the client (\<open>memorycache.go\<close>): a wrapper that counts the hits and misses
  of an \<open>httpcache.Cache\<close>, which is a parameter with its three operations. \<open>None\<close> stands
  for nil data, so an empty entry is \<open>Some []\<close>.
\<close>

section \<open>State and operations\<close>

record 's base_cache =
  base_get :: "string \<Rightarrow> 's \<Rightarrow> (bytes option \<times> go_err option) \<times> 's"
  base_set :: "string \<Rightarrow> bytes \<Rightarrow> duration \<Rightarrow> 's \<Rightarrow> go_err option \<times> 's"
  base_del :: "string \<Rightarrow> 's \<Rightarrow> go_err option \<times> 's"

record 's memory_cache =
  mc_base :: 's
  mc_hits :: "64 word"
  mc_misses :: "64 word"

definition new_metrics_memory_cache :: "'s \<Rightarrow> 's memory_cache" where
  "new_metrics_memory_cache b = \<lparr>mc_base = b, mc_hits = 0, mc_misses = 0\<rparr>"

definition memory_set ::
    "'s base_cache \<Rightarrow> string \<Rightarrow> bytes \<Rightarrow> duration \<Rightarrow> 's memory_cache \<Rightarrow> go_err option \<times> 's memory_cache" where
  "memory_set b key data ttl mc =
     (case base_set b key data ttl (mc_base mc) of (e, s) \<Rightarrow> (e, mc\<lparr>mc_base := s\<rparr>))"

definition memory_get ::
    "'s base_cache \<Rightarrow> 'w metrics \<Rightarrow> string \<Rightarrow> 's memory_cache \<times> 'w
      \<Rightarrow> (bytes option \<times> go_err option) \<times> 's memory_cache \<times> 'w" where
  "memory_get b m key st =
     (case st of (mc, w) \<Rightarrow>
        (case base_get b key (mc_base mc) of
           ((data, err), s) \<Rightarrow>
             (if err \<noteq> None \<or> data = None
              then ((None, None), mc\<lparr>mc_base := s, mc_misses := mc_misses mc + 1\<rparr>, m IncrementCacheMisses w)
              else ((data, None), mc\<lparr>mc_base := s, mc_hits := mc_hits mc + 1\<rparr>, m IncrementCacheHits w))))"

definition memory_del :: "'s base_cache \<Rightarrow> string \<Rightarrow> 's memory_cache \<Rightarrow> go_err option \<times> 's memory_cache" where
  "memory_del b key mc = (case base_del b key (mc_base mc) of (e, s) \<Rightarrow> (e, mc\<lparr>mc_base := s\<rparr>))"

definition memory_stats :: "'s memory_cache \<Rightarrow> 64 word \<times> 64 word" where
  "memory_stats mc = (mc_hits mc, mc_misses mc)"

section \<open>Sequences of calls\<close>

text \<open>What one call returns: the data found, if it is a lookup, and the error.\<close>

type_synonym call_result = "bytes option \<times> go_err option"

fun base_step :: "'s base_cache \<Rightarrow> duration \<Rightarrow> cache_op \<Rightarrow> 's \<Rightarrow> call_result \<times> 's" where
  "base_step b ttl (GetOp k) s = base_get b k s"
| "base_step b ttl (SetOp k d) s = (case base_set b k d ttl s of (e, s') \<Rightarrow> ((None, e), s'))"
| "base_step b ttl (DelOp k) s = (case base_del b k s of (e, s') \<Rightarrow> ((None, e), s'))"

fun memory_step ::
    "'s base_cache \<Rightarrow> 'w metrics \<Rightarrow> duration \<Rightarrow> cache_op \<Rightarrow> 's memory_cache \<times> 'w
      \<Rightarrow> call_result \<times> 's memory_cache \<times> 'w" where
  "memory_step b m ttl (GetOp k) st = memory_get b m k st"
| "memory_step b m ttl (SetOp k d) (mc, w) =
     (case memory_set b k d ttl mc of (e, mc') \<Rightarrow> ((None, e), mc', w))"
| "memory_step b m ttl (DelOp k) (mc, w) = (case memory_del b k mc of (e, mc') \<Rightarrow> ((None, e), mc', w))"

fun run_steps :: "('o \<Rightarrow> 's \<Rightarrow> 'r \<times> 's) \<Rightarrow> 'o list \<Rightarrow> 's \<Rightarrow> 'r list \<times> 's" where
  "run_steps f [] s = ([], s)"
| "run_steps f (p # ps) s =
     (case f p s of (r, s') \<Rightarrow> (case run_steps f ps s' of (rs, s'') \<Rightarrow> (r # rs, s'')))"

text \<open>The wrapper's answer for the base's: an error of a lookup becomes a miss.\<close>

fun masked :: "cache_op \<Rightarrow> call_result \<Rightarrow> call_result" where
  "masked (GetOp k) (d, e) = (if e \<noteq> None then (None, None) else (d, None))"
| "masked _ r = r"

text \<open>The event of a lookup, by what the wrapper answers.\<close>

fun lookup_event :: "cache_op \<Rightarrow> call_result \<Rightarrow> metric_event list" where
  "lookup_event (GetOp k) (d, e) = [if d = None then IncrementCacheMisses else IncrementCacheHits]"
| "lookup_event _ r = []"

definition lookup_events :: "cache_op list \<Rightarrow> call_result list \<Rightarrow> metric_event list" where
  "lookup_events ps rs = concat (map2 lookup_event ps rs)"

lemma lookup_events_simps [simp]:
  "lookup_events [] rs = []"
  "lookup_events (p # ps) (r # rs) = lookup_event p r @ lookup_events ps rs"
  by (simp_all add: lookup_events_def)

text \<open>The cache after some events, with the base in the given state.\<close>

definition after_events :: "'s memory_cache \<Rightarrow> 's \<Rightarrow> metric_event list \<Rightarrow> 's memory_cache" where
  "after_events mc s es =
     \<lparr>mc_base = s, mc_hits = mc_hits mc + of_nat (count_list es IncrementCacheHits),
      mc_misses = mc_misses mc + of_nat (count_list es IncrementCacheMisses)\<rparr>"

lemma count_append: "count_list (xs @ ys) x = count_list xs x + count_list ys x"
  by (induction xs) auto

lemma after_events_append:
  "after_events (after_events mc s es) s' fs = after_events mc s' (es @ fs)"
  "mc_base (after_events mc s es) = s"
  by (simp_all add: after_events_def count_append)

lemma memory_step_log:
  assumes "base_step b ttl p (mc_base mc) = (r, s)"
  shows "memory_step b log_metrics ttl p (mc, w, es) =
      (masked p r, after_events mc s (lookup_event p (masked p r)), w, es @ lookup_event p (masked p r))"
proof (cases p)
  case (GetOp k)
  obtain d e where "r = (d, e)" by fastforce
  with assms GetOp show ?thesis
    by (cases "e \<noteq> None \<or> d = None") (auto simp: memory_get_def log_metrics_def after_events_def)
next
  case (SetOp k d)
  with assms show ?thesis by (auto simp: memory_set_def after_events_def split: prod.splits)
next
  case (DelOp k)
  with assms show ?thesis by (auto simp: memory_del_def after_events_def split: prod.splits)
qed

lemma memory_run_log:
  assumes "run_steps (base_step b ttl) ps (mc_base mc) = (rs, s)"
    and "ms = map2 masked ps rs"
  shows "run_steps (memory_step b log_metrics ttl) ps (mc, w, es) =
      (ms, after_events mc s (lookup_events ps ms), w, es @ lookup_events ps ms)"
  using assms
proof (induction ps arbitrary: mc rs es ms)
  case Nil
  then show ?case by (simp add: after_events_def)
next
  case (Cons p ps)
  obtain r s1 where b: "base_step b ttl p (mc_base mc) = (r, s1)" by fastforce
  then obtain rs' where rs: "rs = r # rs'" and s: "run_steps (base_step b ttl) ps s1 = (rs', s)"
    using Cons.prems by (auto split: prod.splits)
  let ?ev = "lookup_event p (masked p r)"
  have "run_steps (base_step b ttl) ps (mc_base (after_events mc s1 ?ev)) = (rs', s)"
    using s by (simp add: after_events_append)
  from Cons.IH [OF this refl, of "es @ ?ev"] memory_step_log [OF b, of w es] Cons.prems(2)
  show ?case by (simp add: rs after_events_append)
qed

lemma lookup_events_total:
  "length rs = length ps \<Longrightarrow>
     count_list (lookup_events ps rs) IncrementCacheHits + count_list (lookup_events ps rs) IncrementCacheMisses =
       length (filter (\<lambda>p. case p of GetOp _ \<Rightarrow> True | _ \<Rightarrow> False) ps)"
proof (induction ps arbitrary: rs)
  case (Cons p ps)
  then obtain r rs' where rs: "rs = r # rs'" "length rs' = length ps" by (cases rs) auto
  from Cons.IH [OF rs(2)] show ?case
    by (cases p; cases r) (auto simp: rs(1) count_append)
qed simp

lemma length_run_steps: "run_steps f ps s = (rs, s') \<Longrightarrow> length rs = length ps"
  by (induction ps arbitrary: s rs) (auto split: prod.splits)

section \<open>Properties\<close>

text \<open>
  Over any sequence of calls the wrapper answers as its base does, an error of a lookup turned
  into a miss, reports each lookup as one hit or one miss, and its counters are those numbers
  modulo their width.
\<close>

lemma memory_cache_accounts:
  "case run_steps (base_step b ttl) ps s of (rs, s') \<Rightarrow>
     (case run_steps (memory_step b log_metrics ttl) ps (new_metrics_memory_cache s, w, []) of
        (ms, mc, w', es) \<Rightarrow>
          ms = map2 masked ps rs \<and> mc_base mc = s' \<and> w' = w \<and> es = lookup_events ps ms
          \<and> memory_stats mc = (of_nat (count_list es IncrementCacheHits), of_nat (count_list es IncrementCacheMisses))
          \<and> count_list es IncrementCacheHits + count_list es IncrementCacheMisses =
              length (filter (\<lambda>p. case p of GetOp _ \<Rightarrow> True | _ \<Rightarrow> False) ps))"
proof -
  obtain rs s' where b: "run_steps (base_step b ttl) ps s = (rs, s')" by fastforce
  have "run_steps (base_step b ttl) ps (mc_base (new_metrics_memory_cache s)) = (rs, s')"
    using b by (simp add: new_metrics_memory_cache_def)
  from memory_run_log [OF this refl, of w "[]"] b lookup_events_total [of "map2 masked ps rs" ps]
    length_run_steps [OF b]
  show ?thesis by (simp add: memory_stats_def after_events_def new_metrics_memory_cache_def)
qed

end
