(* ===== verification/FileCache.thy ===== *)
theory FileCache
  imports CacheSpec "HOL-Library.AList" "HOL-Library.Word"
begin

text \<open>
  The filesystem cache of \<open>filecache.go\<close>. The state has the cache's fields and the files of its
  directory; every system call can fail, with the failures of one call of an operation given by a
  record. SHA-256 in hexadecimal is a parameter.
\<close>

section \<open>State\<close>

record cache_file =
  content :: bytes
  mtime :: instant
  is_dir :: bool

text \<open>
  The entries of the cache directory by name, in the order \<open>ReadDir\<close> lists them. Names are
  relative to \<open>fc_dir\<close>: a path the code joins from the directory and a name is the name here.
  \<open>fc_hit_metric\<close> and \<open>fc_miss_metric\<close> count the calls of the metrics backend.
\<close>

type_synonym disk = "(string \<times> cache_file) list"

record file_cache =
  fc_dir :: string
  fc_ttl :: duration
  fc_key_prefix :: string
  fc_max_size :: int
  fc_io_timeout :: duration
  fc_hits :: "64 word"
  fc_misses :: "64 word"
  fc_hit_metric :: nat
  fc_miss_metric :: nat
  fc_cached_size :: int
  fc_size_metric :: "int option"
  fc_disk :: disk

record file_cache_config =
  cfg_dir :: string
  cfg_ttl :: duration
  cfg_key_prefix :: string
  cfg_max_size :: int
  cfg_io_timeout :: duration

text \<open>
  The environment of one operation: what each check of the context and each system call returns,
  \<open>None\<close> for success, the clock, and the name \<open>CreateTemp\<close> chooses. \<open>ctx_start\<close> is
  the caller's context, \<open>ctx_io\<close> and \<open>ctx_done\<close> the derived one before and after the I/O.
\<close>

record io_env =
  io_now :: instant
  tmp_name :: string
  ctx_start :: "go_err option"
  ctx_io :: "go_err option"
  ctx_done :: "go_err option"
  stat_fault :: "go_err option"
  create_fault :: "go_err option"
  write_fault :: "(nat \<times> go_err) option"
  close_fault :: "go_err option"
  chmod_fault :: "go_err option"
  rename_fault :: "go_err option"
  read_fault :: "go_err option"
  readdir_fault :: "go_err option"
  remove_fault :: "string \<Rightarrow> go_err option"
  info_fault :: "string \<Rightarrow> go_err option"

definition no_faults :: "instant \<Rightarrow> string \<Rightarrow> io_env" where
  "no_faults t tmp =
     \<lparr>io_now = t, tmp_name = tmp, ctx_start = None, ctx_io = None, ctx_done = None, stat_fault = None,
      create_fault = None, write_fault = None, close_fault = None, chmod_fault = None,
      rename_fault = None, read_fault = None, readdir_fault = None, remove_fault = (\<lambda>_. None),
      info_fault = (\<lambda>_. None)\<rparr>"

section \<open>System calls\<close>

definition not_exist :: go_err where
  "not_exist = errorf_w ''path error'' (err_value ErrNotExist)"

definition size_of :: "cache_file \<Rightarrow> int" where
  "size_of f = int (length (content f))"

text \<open>
  \<open>os.Stat\<close>, \<open>os.ReadFile\<close> and \<open>os.Remove\<close> fail with \<open>fs.ErrNotExist\<close> on
  a name that is absent. A directory can be looked up, but not read as a file.
\<close>

definition os_stat :: "io_env \<Rightarrow> string \<Rightarrow> disk \<Rightarrow> go_err + cache_file" where
  "os_stat env name d =
     (case map_of d name of
        None \<Rightarrow> Inl not_exist
      | Some f \<Rightarrow> (case stat_fault env of Some e \<Rightarrow> Inl e | None \<Rightarrow> Inr f))"

definition os_read_file :: "io_env \<Rightarrow> string \<Rightarrow> disk \<Rightarrow> go_err + bytes" where
  "os_read_file env name d =
     (case map_of d name of
        None \<Rightarrow> Inl not_exist
      | Some f \<Rightarrow>
          (case read_fault env of
             Some e \<Rightarrow> Inl e
           | None \<Rightarrow> if is_dir f then Inl (errorf ''is a directory'') else Inr (content f)))"

definition os_remove :: "io_env \<Rightarrow> string \<Rightarrow> disk \<Rightarrow> go_err option \<times> disk" where
  "os_remove env name d =
     (case map_of d name of
        None \<Rightarrow> (Some not_exist, d)
      | Some _ \<Rightarrow> (case remove_fault env name of Some e \<Rightarrow> (Some e, d) | None \<Rightarrow> (None, AList.delete name d)))"

text \<open>\<open>os.Rename\<close> replaces the file the new name held, and fails where that is a directory.\<close>

definition names_dir :: "string \<Rightarrow> disk \<Rightarrow> bool" where
  "names_dir name d \<longleftrightarrow> (case map_of d name of None \<Rightarrow> False | Some f \<Rightarrow> is_dir f)"

definition os_rename :: "io_env \<Rightarrow> string \<Rightarrow> string \<Rightarrow> disk \<Rightarrow> go_err option \<times> disk" where
  "os_rename env old new d =
     (case map_of d old of
        None \<Rightarrow> (Some not_exist, d)
      | Some f \<Rightarrow>
          (case rename_fault env of
             Some e \<Rightarrow> (Some e, d)
           | None \<Rightarrow>
               if names_dir new d then (Some (errorf ''file exists''), d)
               else (None, AList.update new f (AList.delete old d))))"

section \<open>Size accounting\<close>

definition adjust_cache_size :: "int \<Rightarrow> file_cache \<Rightarrow> file_cache" where
  "adjust_cache_size delta fc =
     (let new_size = fc_cached_size fc + delta;
          new_size = (if new_size < 0 then 0 else new_size)
      in fc\<lparr>fc_cached_size := new_size, fc_size_metric := Some new_size\<rparr>)"

fun sum_sizes :: "io_env \<Rightarrow> disk \<Rightarrow> int" where
  "sum_sizes env [] = 0"
| "sum_sizes env ((name, f) # d) =
     (if is_dir f then sum_sizes env d
      else if info_fault env name \<noteq> None then sum_sizes env d
      else size_of f + sum_sizes env d)"

definition update_cache_size_metric :: "io_env \<Rightarrow> file_cache \<Rightarrow> file_cache" where
  "update_cache_size_metric env fc =
     (if readdir_fault env \<noteq> None then fc
      else (let total = sum_sizes env (fc_disk fc)
            in fc\<lparr>fc_cached_size := total, fc_size_metric := Some total\<rparr>))"

section \<open>Operations\<close>

definition default_file_io_timeout :: duration where
  "default_file_io_timeout = 5 * second"

text \<open>
  \<open>NewFileCache\<close>. \<open>expand\<close> is \<open>expandHome\<close>; \<open>mkdir\<close> gives the files the
  directory holds after \<open>MkdirAll\<close>, or its error.
\<close>

definition new_file_cache ::
    "(string \<Rightarrow> go_err + string) \<Rightarrow> (string \<Rightarrow> go_err + disk) \<Rightarrow> io_env \<Rightarrow> file_cache_config option
      \<Rightarrow> go_err + file_cache" where
  "new_file_cache expand mkdir env config =
     (case config of
        None \<Rightarrow> Inl (errorf ''config cannot be nil'')
      | Some cfg \<Rightarrow>
          if cfg_dir cfg = [] then Inl (errorf ''cache directory cannot be empty'')
          else (case expand (cfg_dir cfg) of
              Inl e \<Rightarrow> Inl (errorf_w ''failed to get home directory'' e)
            | Inr dir \<Rightarrow>
                (case mkdir dir of
                   Inl e \<Rightarrow> Inl (errorf_w ''failed to create cache directory'' e)
                 | Inr d \<Rightarrow>
                     Inr (update_cache_size_metric env
                       \<lparr>fc_dir = dir, fc_ttl = cfg_ttl cfg, fc_key_prefix = cfg_key_prefix cfg,
                        fc_max_size = cfg_max_size cfg,
                        fc_io_timeout =
                          (if cfg_io_timeout cfg \<le> 0 then default_file_io_timeout else cfg_io_timeout cfg),
                        fc_hits = 0, fc_misses = 0, fc_hit_metric = 0, fc_miss_metric = 0, fc_cached_size = 0, fc_size_metric = None,
                        fc_disk = d\<rparr>))))"

definition key_to_filename :: "(string \<Rightarrow> string) \<Rightarrow> file_cache \<Rightarrow> string \<Rightarrow> string" where
  "key_to_filename sha fc key = sha (fc_key_prefix fc @ key)"

text \<open>The end of \<open>Set\<close> on an error after \<open>CreateTemp\<close>: the temp file is removed.\<close>

definition fail_set :: "io_env \<Rightarrow> string \<Rightarrow> go_err \<Rightarrow> file_cache \<Rightarrow> go_err option \<times> file_cache" where
  "fail_set env m e fc =
     (Some (errorf_w m e), fc\<lparr>fc_disk := snd (os_remove env (tmp_name env) (fc_disk fc))\<rparr>)"

definition put_tmp :: "io_env \<Rightarrow> bytes \<Rightarrow> file_cache \<Rightarrow> file_cache" where
  "put_tmp env data fc =
     fc\<lparr>fc_disk := AList.update (tmp_name env) \<lparr>content = data, mtime = io_now env, is_dir = False\<rparr> (fc_disk fc)\<rparr>"

definition cache_set ::
    "(string \<Rightarrow> string) \<Rightarrow> io_env \<Rightarrow> string \<Rightarrow> bytes \<Rightarrow> file_cache \<Rightarrow> go_err option \<times> file_cache" where
  "cache_set sha env key data fc =
     (case ctx_start env of
        Some e \<Rightarrow> (Some e, fc)
      | None \<Rightarrow>
          if fc_max_size fc > 0 \<and> int (length data) > fc_max_size fc
          then (Some (errorf_w ''entry size exceeds limit'' (err_value ErrCacheSizeLimitExceeded)), fc)
          else
            (let filename = key_to_filename sha fc key;
                 old_size = (case os_stat env filename (fc_disk fc) of Inr f \<Rightarrow> size_of f | Inl _ \<Rightarrow> 0)
             in case ctx_io env of
                  Some e \<Rightarrow> (Some (errorf_w ''cache write timeout'' e), fc)
                | None \<Rightarrow>
                    (case create_fault env of
                       Some e \<Rightarrow> (Some (errorf_w ''failed to create temp cache file'' e), fc)
                     | None \<Rightarrow>
                         (case write_fault env of
                            Some (n, e) \<Rightarrow> fail_set env ''failed to write cache file'' e (put_tmp env (take n data) fc)
                          | None \<Rightarrow>
                              (let fc = put_tmp env data fc
                               in case close_fault env of
                                    Some e \<Rightarrow> fail_set env ''failed to close temp cache file'' e fc
                                  | None \<Rightarrow>
                                      (case chmod_fault env of
                                         Some e \<Rightarrow> fail_set env ''failed to set cache file permissions'' e fc
                                       | None \<Rightarrow>
                                           (case ctx_done env of
                                              Some e \<Rightarrow> fail_set env ''cache write timeout'' e fc
                                            | None \<Rightarrow>
                                                (case os_rename env (tmp_name env) filename (fc_disk fc) of
                                                   (Some e, d) \<Rightarrow>
                                                     fail_set env ''failed to rename cache file'' e (fc\<lparr>fc_disk := d\<rparr>)
                                                 | (None, d) \<Rightarrow>
                                                     (None, adjust_cache_size (int (length data) - old_size)
                                                       (fc\<lparr>fc_disk := d\<rparr>))))))))))"

definition miss :: "file_cache \<Rightarrow> (bytes option \<times> go_err option) \<times> file_cache" where
  "miss fc = ((None, None), fc\<lparr>fc_misses := fc_misses fc + 1, fc_miss_metric := fc_miss_metric fc + 1\<rparr>)"

definition hit :: "bytes \<Rightarrow> file_cache \<Rightarrow> (bytes option \<times> go_err option) \<times> file_cache" where
  "hit data fc = ((Some data, None), fc\<lparr>fc_hits := fc_hits fc + 1, fc_hit_metric := fc_hit_metric fc + 1\<rparr>)"

text \<open>The result of \<open>Get\<close> is the data, \<open>None\<close> for nil, and the error.\<close>

definition cache_get ::
    "(string \<Rightarrow> string) \<Rightarrow> io_env \<Rightarrow> string \<Rightarrow> file_cache
      \<Rightarrow> (bytes option \<times> go_err option) \<times> file_cache" where
  "cache_get sha env key fc =
     (case ctx_start env of
        Some e \<Rightarrow> ((None, Some e), fc)
      | None \<Rightarrow>
          (let filename = key_to_filename sha fc key
           in case ctx_io env of
                Some e \<Rightarrow> ((None, Some (errorf_w ''cache read timeout'' e)), fc)
              | None \<Rightarrow>
                  (case os_read_file env filename (fc_disk fc) of
                     Inl e \<Rightarrow>
                       if errors_is e ErrNotExist then miss fc
                       else ((None, Some (errorf_w ''failed to read cache file'' e)), fc)
                   | Inr data \<Rightarrow>
                       (case ctx_done env of
                          Some e \<Rightarrow> ((None, Some (errorf_w ''cache read timeout'' e)), fc)
                        | None \<Rightarrow>
                            if fc_ttl fc > 0
                            then (case os_stat env filename (fc_disk fc) of
                                Inl e \<Rightarrow>
                                  if errors_is e ErrNotExist then miss fc
                                  else ((None, Some (errorf_w ''failed to stat cache file'' e)), fc)
                              | Inr f \<Rightarrow>
                                  if io_now env - mtime f > fc_ttl fc
                                  then miss (fc\<lparr>fc_disk := snd (os_remove env filename (fc_disk fc))\<rparr>)
                                  else hit data fc)
                            else hit data fc))))"

definition cache_del ::
    "(string \<Rightarrow> string) \<Rightarrow> io_env \<Rightarrow> string \<Rightarrow> file_cache \<Rightarrow> go_err option \<times> file_cache" where
  "cache_del sha env key fc =
     (case ctx_start env of
        Some e \<Rightarrow> (Some e, fc)
      | None \<Rightarrow>
          (let filename = key_to_filename sha fc key;
               removed = (case os_stat env filename (fc_disk fc) of Inr f \<Rightarrow> size_of f | Inl _ \<Rightarrow> 0)
           in case os_remove env filename (fc_disk fc) of
                (Some e, d) \<Rightarrow>
                  if \<not> errors_is e ErrNotExist
                  then (Some (errorf_w ''failed to delete cache file'' e), fc\<lparr>fc_disk := d\<rparr>)
                  else (None, if removed > 0 then adjust_cache_size (- removed) (fc\<lparr>fc_disk := d\<rparr>)
                              else fc\<lparr>fc_disk := d\<rparr>)
              | (None, d) \<Rightarrow>
                  (None, if removed > 0 then adjust_cache_size (- removed) (fc\<lparr>fc_disk := d\<rparr>)
                         else fc\<lparr>fc_disk := d\<rparr>)))"

text \<open>The loops over the directory listing: the number of errors and the files left.\<close>

fun clear_loop :: "io_env \<Rightarrow> disk \<Rightarrow> nat \<times> disk \<Rightarrow> nat \<times> disk" where
  "clear_loop env [] (errs, d) = (errs, d)"
| "clear_loop env ((name, f) # es) (errs, d) =
     (if is_dir f then clear_loop env es (errs, d)
      else (case os_remove env name d of
          (Some _, d') \<Rightarrow> clear_loop env es (errs + 1, d')
        | (None, d') \<Rightarrow> clear_loop env es (errs, d')))"

definition cache_clear :: "io_env \<Rightarrow> file_cache \<Rightarrow> go_err option \<times> file_cache" where
  "cache_clear env fc =
     (case readdir_fault env of
        Some e \<Rightarrow> (Some (errorf_w ''failed to read cache directory'' e), fc)
      | None \<Rightarrow>
          (case clear_loop env (fc_disk fc) (0, fc_disk fc) of
             (errs, d) \<Rightarrow>
               if errs > 0
               then (Some (errorf ''encountered errors while clearing cache''), fc\<lparr>fc_disk := d\<rparr>)
               else (None, update_cache_size_metric env (fc\<lparr>fc_disk := d\<rparr>))))"

fun clean_loop :: "io_env \<Rightarrow> duration \<Rightarrow> disk \<Rightarrow> nat \<times> disk \<Rightarrow> nat \<times> disk" where
  "clean_loop env ttl [] (errs, d) = (errs, d)"
| "clean_loop env ttl ((name, f) # es) (errs, d) =
     (if is_dir f then clean_loop env ttl es (errs, d)
      else if info_fault env name \<noteq> None then clean_loop env ttl es (errs, d)
      else if io_now env - mtime f > ttl
      then (case os_remove env name d of
          (Some e, d') \<Rightarrow> clean_loop env ttl es (if errors_is e ErrNotExist then errs else errs + 1, d')
        | (None, d') \<Rightarrow> clean_loop env ttl es (errs, d'))
      else clean_loop env ttl es (errs, d))"

definition clean_expired :: "io_env \<Rightarrow> file_cache \<Rightarrow> go_err option \<times> file_cache" where
  "clean_expired env fc =
     (if fc_ttl fc = 0 then (None, fc)
      else (case readdir_fault env of
          Some e \<Rightarrow> (Some (errorf_w ''failed to read cache directory'' e), fc)
        | None \<Rightarrow>
            (case clean_loop env (fc_ttl fc) (fc_disk fc) (0, fc_disk fc) of
               (errs, d) \<Rightarrow>
                 (if errs > 0 then Some (errorf ''encountered errors while cleaning expired entries'')
                  else None,
                  update_cache_size_metric env (fc\<lparr>fc_disk := d\<rparr>)))))"

definition cache_stats :: "file_cache \<Rightarrow> 64 word \<times> 64 word" where
  "cache_stats fc = (fc_hits fc, fc_misses fc)"

definition cache_close :: "io_env \<Rightarrow> file_cache \<Rightarrow> go_err option \<times> file_cache" where
  "cache_close env fc =
     (case clean_expired env fc of (Some e, fc') \<Rightarrow> (Some e, fc') | (None, fc') \<Rightarrow> (None, fc'))"

section \<open>What the directory holds\<close>

text \<open>The entry a lookup at time \<open>t\<close> finds under a file name; a directory is none.\<close>

definition entry_at :: "duration \<Rightarrow> instant \<Rightarrow> disk \<Rightarrow> string \<Rightarrow> bytes option" where
  "entry_at ttl t d name =
     (case map_of d name of
        None \<Rightarrow> None
      | Some f \<Rightarrow> if is_dir f \<or> ttl > 0 \<and> t - mtime f > ttl then None else Some (content f))"

definition names :: "disk \<Rightarrow> string set" where
  "names d = fst ` set d"

definition disk_ok :: "disk \<Rightarrow> bool" where
  "disk_ok d \<longleftrightarrow> distinct (map fst d)"

text \<open>The size the cache should report.\<close>

definition total_size :: "disk \<Rightarrow> int" where
  "total_size d = (\<Sum>(name, f) \<leftarrow> d. if is_dir f then 0 else size_of f)"

lemma not_exist_is [simp]: "errors_is not_exist ErrNotExist"
  by (simp add: not_exist_def)

lemma map_of_delete [simp]: "map_of (AList.delete k d) j = (if j = k then None else map_of d j)"
  by (simp add: delete_conv)

lemma map_of_update [simp]: "map_of (AList.update k v d) j = (if j = k then Some v else map_of d j)"
  by (simp add: update_conv)

lemma disk_ok_simps [simp]:
  "disk_ok d \<Longrightarrow> disk_ok (AList.delete k d)" "disk_ok d \<Longrightarrow> disk_ok (AList.update k v d)"
  by (simp_all add: disk_ok_def distinct_delete distinct_update)

lemma adjust_cache_size_disk [simp]:
  "fc_disk (adjust_cache_size n fc) = fc_disk fc" "fc_ttl (adjust_cache_size n fc) = fc_ttl fc"
  "fc_key_prefix (adjust_cache_size n fc) = fc_key_prefix fc"
  by (simp_all add: adjust_cache_size_def Let_def)

lemma os_remove_simps:
  "map_of (snd (os_remove env name d)) j =
     (if j = name \<and> remove_fault env name = None then None else map_of d j)"
  by (auto simp: os_remove_def split: option.split)

section \<open>Storing\<close>

text \<open>Everything but the temp file and the entry is left alone; the entry changes only on success.\<close>

lemma fail_set_disk:
  "map_of (fc_disk (snd (fail_set env m e fc))) j =
     (if j = tmp_name env \<and> remove_fault env j = None then None else map_of (fc_disk fc) j)"
  "fst (fail_set env m e fc) \<noteq> None"
  by (auto simp: fail_set_def os_remove_simps)

lemma put_tmp_disk:
  "map_of (fc_disk (put_tmp env data fc)) j =
     (if j = tmp_name env then Some \<lparr>content = data, mtime = io_now env, is_dir = False\<rparr>
      else map_of (fc_disk fc) j)"
  by (simp add: put_tmp_def)

lemma key_to_filename_simps [simp]:
  "key_to_filename sha (put_tmp env data fc) key = key_to_filename sha fc key"
  "key_to_filename sha (fc\<lparr>fc_disk := d\<rparr>) key = key_to_filename sha fc key"
  by (simp_all add: key_to_filename_def put_tmp_def)

lemma cache_set_disk:
  assumes "cache_set sha env key data fc = (e, fc')" and tmp: "tmp_name env \<notin> names (fc_disk fc)"
    and name: "name = key_to_filename sha fc key" and ne: "tmp_name env \<noteq> name"
  shows "(j \<noteq> name \<and> j \<noteq> tmp_name env \<longrightarrow> map_of (fc_disk fc') j = map_of (fc_disk fc) j)
    \<and> map_of (fc_disk fc') name =
        (if e = None then Some \<lparr>content = data, mtime = io_now env, is_dir = False\<rparr>
         else map_of (fc_disk fc) name)
    \<and> (e = None \<or> remove_fault env (tmp_name env) = None \<longrightarrow> map_of (fc_disk fc') (tmp_name env) = None)"
proof -
  have t: "map_of (fc_disk fc) (tmp_name env) = None"
    using tmp by (simp add: names_def map_of_eq_None_iff)
  show ?thesis
    using assms(1) t ne unfolding name
    by (auto simp: cache_set_def Let_def os_rename_def fail_set_def os_remove_simps put_tmp_disk
        split: option.splits if_splits prod.splits)
qed

text \<open>What makes \<open>Set\<close> fail: everything but a failing look at the old size.\<close>

definition set_succeeds :: "io_env \<Rightarrow> string \<Rightarrow> bytes \<Rightarrow> file_cache \<Rightarrow> bool" where
  "set_succeeds env name data fc \<longleftrightarrow>
     ctx_start env = None \<and> ctx_io env = None \<and> ctx_done env = None
     \<and> (fc_max_size fc \<le> 0 \<or> int (length data) \<le> fc_max_size fc)
     \<and> create_fault env = None \<and> write_fault env = None \<and> close_fault env = None
     \<and> chmod_fault env = None \<and> rename_fault env = None \<and> \<not> names_dir name (fc_disk fc)"

lemma cache_set_error:
  assumes "cache_set sha env key data fc = (e, fc')" and name: "name = key_to_filename sha fc key"
    and ne: "tmp_name env \<noteq> name"
  shows "e = None \<longleftrightarrow> set_succeeds env name data fc"
proof -
  have "map_of (fc_disk (put_tmp env data fc)) (tmp_name env) \<noteq> None"
    "names_dir name (fc_disk (put_tmp env data fc)) = names_dir name (fc_disk fc)"
    using ne by (simp_all add: put_tmp_disk names_dir_def)
  then show ?thesis
    using assms(1) unfolding name set_succeeds_def
    by (auto simp: cache_set_def Let_def os_rename_def fail_set_def
        split: option.splits if_splits prod.splits)
qed

section \<open>The contract of a cache\<close>

text \<open>
  Without faults and at one instant, the cache is a cache backend, with the file name as the
  address of a key. No digest is the name of a temp file or of a directory.
\<close>

definition file_ok :: "(string \<Rightarrow> string) \<Rightarrow> string \<Rightarrow> string \<Rightarrow> file_cache \<Rightarrow> bool" where
  "file_ok sha prefix tmp fc \<longleftrightarrow> fc_key_prefix fc = prefix \<and> tmp \<notin> names (fc_disk fc)
     \<and> tmp \<notin> range sha"

definition file_get ::
    "(string \<Rightarrow> string) \<Rightarrow> instant \<Rightarrow> string \<Rightarrow> string \<Rightarrow> file_cache \<Rightarrow> bytes option \<times> file_cache" where
  "file_get sha t tmp k fc = (case cache_get sha (no_faults t tmp) k fc of ((d, _), fc') \<Rightarrow> (d, fc'))"

definition file_addr :: "(string \<Rightarrow> string) \<Rightarrow> string \<Rightarrow> string \<Rightarrow> string" where
  "file_addr sha prefix k = sha (prefix @ k)"

lemma no_faults_simps [simp]:
  "io_now (no_faults t tmp) = t" "tmp_name (no_faults t tmp) = tmp"
  "ctx_start (no_faults t tmp) = None" "ctx_io (no_faults t tmp) = None"
  "ctx_done (no_faults t tmp) = None" "stat_fault (no_faults t tmp) = None"
  "create_fault (no_faults t tmp) = None" "write_fault (no_faults t tmp) = None"
  "close_fault (no_faults t tmp) = None" "chmod_fault (no_faults t tmp) = None"
  "rename_fault (no_faults t tmp) = None" "read_fault (no_faults t tmp) = None"
  "readdir_fault (no_faults t tmp) = None" "remove_fault (no_faults t tmp) n = None"
  "info_fault (no_faults t tmp) n = None"
  by (simp_all add: no_faults_def)

lemma cache_get_no_faults:
  "cache_get sha (no_faults t tmp) k fc =
     (let name = key_to_filename sha fc k
      in case map_of (fc_disk fc) name of
           None \<Rightarrow> miss fc
         | Some f \<Rightarrow>
             if is_dir f
             then ((None, Some (errorf_w ''failed to read cache file'' (errorf ''is a directory''))), fc)
             else if fc_ttl fc > 0 \<and> t - mtime f > fc_ttl fc
             then miss (fc\<lparr>fc_disk := AList.delete name (fc_disk fc)\<rparr>)
             else hit (content f) fc)"
  by (auto simp: cache_get_def Let_def os_read_file_def os_stat_def os_remove_def split: option.split)

lemma hit_miss_simps [simp]:
  "fst (fst (miss fc)) = None" "fst (fst (hit d fc)) = Some d"
  "fc_disk (snd (miss fc)) = fc_disk fc" "fc_disk (snd (hit d fc)) = fc_disk fc"
  "fc_ttl (snd (miss fc)) = fc_ttl fc" "fc_ttl (snd (hit d fc)) = fc_ttl fc"
  "fc_key_prefix (snd (miss fc)) = fc_key_prefix fc" "fc_key_prefix (snd (hit d fc)) = fc_key_prefix fc"
  by (simp_all add: miss_def hit_def)

definition file_view :: "instant \<Rightarrow> file_cache \<Rightarrow> string \<Rightarrow> bytes option" where
  "file_view t fc = entry_at (fc_ttl fc) t (fc_disk fc)"

lemma names_map_of: "n \<in> names d \<longleftrightarrow> map_of d n \<noteq> None"
  by (simp add: names_def map_of_eq_None_iff)

lemma file_get_law:
  assumes "file_get sha t tmp k fc = (d, fc')" "file_ok sha prefix tmp fc"
  shows "d = file_view t fc (file_addr sha prefix k) \<and> file_view t fc' = file_view t fc
    \<and> file_ok sha prefix tmp fc'"
proof -
  let ?name = "key_to_filename sha fc k"
  have name: "file_addr sha prefix k = ?name"
    using assms(2) by (simp add: file_ok_def file_addr_def key_to_filename_def)
  show ?thesis
  proof (cases "map_of (fc_disk fc) ?name")
    case None
    with assms name show ?thesis
      by (auto simp: file_get_def cache_get_no_faults file_view_def entry_at_def file_ok_def miss_def
          split: prod.splits)
  next
    case (Some f)
    with assms name show ?thesis
      by (auto simp: file_get_def cache_get_no_faults file_view_def entry_at_def file_ok_def
          names_map_of Let_def miss_def hit_def fun_eq_iff
          split: prod.splits if_splits option.split)
  qed
qed

lemma cache_set_fields:
  assumes "cache_set sha env key data fc = (e, fc')"
  shows "fc_ttl fc' = fc_ttl fc \<and> fc_key_prefix fc' = fc_key_prefix fc"
  using assms
  by (auto simp: cache_set_def Let_def fail_set_def put_tmp_def
      split: option.splits if_splits prod.splits)

lemma file_set_law:
  assumes "cache_set sha (no_faults t tmp) k b fc = (e, fc')" "file_ok sha prefix tmp fc"
  shows "file_ok sha prefix tmp fc'
    \<and> file_view t fc' =
       (if e = None then (file_view t fc)(file_addr sha prefix k := Some b) else file_view t fc)"
proof -
  let ?name = "key_to_filename sha fc k"
  have name: "file_addr sha prefix k = ?name" and ne: "tmp \<noteq> ?name"
    using assms(2) by (auto simp: file_ok_def file_addr_def key_to_filename_def)
  note d = cache_set_disk [OF assms(1) _ refl, of j for j]
  have t: "tmp \<notin> names (fc_disk fc)" using assms(2) by (simp add: file_ok_def)
  have "map_of (fc_disk fc') j =
      (if j = ?name \<and> e = None then Some \<lparr>content = b, mtime = t, is_dir = False\<rparr>
       else map_of (fc_disk fc) j)" for j
    using d [of j] t ne names_map_of [of tmp "fc_disk fc"] by (cases "j = tmp") auto
  with cache_set_fields [OF assms(1)] assms(2) ne show ?thesis
    by (auto simp: file_view_def entry_at_def fun_eq_iff name file_ok_def names_map_of)
qed

lemma file_del_law:
  assumes "cache_del sha (no_faults t tmp) k fc = (e, fc')" "file_ok sha prefix tmp fc"
  shows "file_ok sha prefix tmp fc'
    \<and> file_view t fc' =
       (if e = None then (file_view t fc)(file_addr sha prefix k := None) else file_view t fc)"
  using assms
  by (auto simp: cache_del_def Let_def os_remove_def os_stat_def file_view_def entry_at_def
      file_ok_def names_map_of file_addr_def key_to_filename_def fun_eq_iff
      split: option.splits if_splits)

interpretation fcb: cache_backend "file_get sha t tmp" "cache_set sha (no_faults t tmp)"
  "cache_del sha (no_faults t tmp)" "file_ok sha prefix tmp" "file_addr sha prefix" "file_view t"
  for sha t tmp prefix
  by unfold_locales (blast dest: file_get_law, blast dest: file_set_law, blast dest: file_del_law)

definition file_backend :: "(string \<Rightarrow> string) \<Rightarrow> instant \<Rightarrow> string \<Rightarrow> file_cache backend" where
  "file_backend sha t tmp =
     (file_get sha t tmp, cache_set sha (no_faults t tmp), cache_del sha (no_faults t tmp))"

section \<open>Size accounting\<close>

definition weight :: "cache_file option \<Rightarrow> int" where
  "weight f = (case f of None \<Rightarrow> 0 | Some f \<Rightarrow> if is_dir f then 0 else size_of f)"

lemma total_size_simps [simp]:
  "total_size [] = 0" "total_size (x # d) = weight (Some (snd x)) + total_size d"
  by (simp_all add: total_size_def weight_def split: prod.split)

lemma weight_nonneg [simp]: "0 \<le> weight f"
  by (simp add: weight_def size_of_def split: option.split)

lemma total_size_nonneg: "0 \<le> total_size d"
  by (induction d) auto

lemma delete_fresh: "k \<notin> fst ` set d \<Longrightarrow> AList.delete k d = d"
  by (force simp: AList.delete_eq filter_id_conv)

lemma total_size_delete:
  "disk_ok d \<Longrightarrow> total_size (AList.delete k d) = total_size d - weight (map_of d k)"
proof (induction d)
  case (Cons x d)
  then show ?case
    by (cases x) (auto simp: disk_ok_def delete_fresh map_of_eq_None_iff [THEN iffD2] weight_def)
qed (simp add: weight_def)

lemma total_size_update:
  "disk_ok d \<Longrightarrow> total_size (AList.update k f d) = total_size d - weight (map_of d k) + weight (Some f)"
proof (induction d)
  case (Cons x d)
  then show ?case by (cases x) (auto simp: disk_ok_def)
qed (simp add: weight_def)

lemma delete_update_fresh: "k \<notin> names d \<Longrightarrow> AList.delete k (AList.update k f d) = d"
proof (induction d)
  case (Cons x d)
  then show ?case by (cases x) (auto simp: names_def)
qed (simp add: names_def)

definition tracked :: "file_cache \<Rightarrow> bool" where
  "tracked fc \<longleftrightarrow> disk_ok (fc_disk fc) \<and> fc_cached_size fc = total_size (fc_disk fc)"

lemma tracked_adjust:
  assumes "disk_ok (fc_disk fc)" "total_size (fc_disk fc) = fc_cached_size fc + n"
  shows "tracked (adjust_cache_size n fc)"
  using assms total_size_nonneg [of "fc_disk fc"]
  by (simp add: tracked_def adjust_cache_size_def Let_def)

lemma cache_set_tracked:
  assumes t: "tracked fc" and tmp: "tmp_name env \<notin> names (fc_disk fc)"
    and name: "name = key_to_filename sha fc key" and ne: "tmp_name env \<noteq> name"
    and faults: "stat_fault env = None" "remove_fault env (tmp_name env) = None"
    and dir: "case map_of (fc_disk fc) name of None \<Rightarrow> True | Some f \<Rightarrow> \<not> is_dir f"
  shows "tracked (snd (cache_set sha env key data fc))"
proof -
  let ?d = "fc_disk fc"
  let ?f = "\<lparr>content = data, mtime = io_now env, is_dir = False\<rparr>"
  have fail: "tracked (snd (fail_set env m e (put_tmp env b fc)))" for m e b
    using t tmp faults(2)
    by (simp add: fail_set_def os_remove_def put_tmp_def delete_update_fresh tracked_def)
  have "\<not> names_dir name (fc_disk (put_tmp env data fc))"
    using dir ne by (auto simp: names_dir_def put_tmp_disk split: option.splits)
  then have ren: "os_rename env (tmp_name env) name (fc_disk (put_tmp env data fc)) =
      (case rename_fault env of Some e \<Rightarrow> (Some e, fc_disk (put_tmp env data fc))
       | None \<Rightarrow> (None, AList.update name ?f ?d))"
    using tmp by (simp add: os_rename_def put_tmp_def delete_update_fresh split: option.split)
  have old: "(case os_stat env name ?d of Inr f \<Rightarrow> size_of f | Inl _ \<Rightarrow> 0) = weight (map_of ?d name)"
    using faults(1) dir by (auto simp: os_stat_def weight_def split: option.split)
  have ok: "tracked (adjust_cache_size (int (length data) - weight (map_of ?d name))
      ((put_tmp env data fc)\<lparr>fc_disk := AList.update name ?f ?d\<rparr>))"
    using t by (intro tracked_adjust)
      (auto simp: tracked_def total_size_update put_tmp_def weight_def size_of_def)
  have same: "(put_tmp env data fc)\<lparr>fc_disk := fc_disk (put_tmp env data fc)\<rparr> = put_tmp env data fc"
    by (simp add: put_tmp_def)
  show ?thesis
    unfolding cache_set_def Let_def name [symmetric] old ren
    using t fail ok same by (auto split: option.split prod.split)
qed

lemma cache_del_tracked:
  assumes t: "tracked fc" and stat: "stat_fault env = None"
    and dir: "case map_of (fc_disk fc) (key_to_filename sha fc key) of None \<Rightarrow> True | Some f \<Rightarrow> \<not> is_dir f"
    and rem: "case remove_fault env (key_to_filename sha fc key) of None \<Rightarrow> True
      | Some e \<Rightarrow> \<not> errors_is e ErrNotExist"
  shows "tracked (snd (cache_del sha env key fc))"
proof -
  let ?name = "key_to_filename sha fc key" and ?d = "fc_disk fc"
  show ?thesis
  proof (cases "map_of ?d ?name")
    case None
    with t show ?thesis
      by (auto simp: cache_del_def Let_def os_remove_def os_stat_def split: option.split)
  next
    case (Some f)
    have w: "weight (map_of ?d ?name) = size_of f" using dir Some by (simp add: weight_def)
    have sz: "total_size (AList.delete ?name ?d) = fc_cached_size fc - size_of f"
      using t w by (simp add: tracked_def total_size_delete)
    have "tracked (adjust_cache_size (- size_of f) (fc\<lparr>fc_disk := AList.delete ?name ?d\<rparr>))"
      using t sz by (intro tracked_adjust) (auto simp: tracked_def)
    moreover have "tracked (fc\<lparr>fc_disk := AList.delete ?name ?d\<rparr>)" if "\<not> 0 < size_of f"
      using t sz that by (auto simp: tracked_def size_of_def)
    ultimately show ?thesis
      using Some t stat rem
      by (auto simp: cache_del_def Let_def os_remove_def os_stat_def split: option.split)
  qed
qed

section \<open>Removing\<close>

definition expired :: "io_env \<Rightarrow> duration \<Rightarrow> string \<times> cache_file \<Rightarrow> bool" where
  "expired env ttl x \<longleftrightarrow>
     \<not> is_dir (snd x) \<and> info_fault env (fst x) = None \<and> io_now env - mtime (snd x) > ttl"

definition removable :: "io_env \<Rightarrow> string \<times> cache_file \<Rightarrow> bool" where
  "removable env x \<longleftrightarrow> remove_fault env (fst x) = None"

definition remove_failed :: "io_env \<Rightarrow> string \<times> cache_file \<Rightarrow> bool" where
  "remove_failed env x \<longleftrightarrow>
     (case remove_fault env (fst x) of None \<Rightarrow> False | Some e \<Rightarrow> \<not> errors_is e ErrNotExist)"

lemma delete_filter_name: "AList.delete k d = filter (\<lambda>x. fst x \<noteq> k) d"
  by (auto simp: AList.delete_eq intro!: filter_cong)

lemma same_name: "disk_ok d \<Longrightarrow> x \<in> set d \<Longrightarrow> y \<in> set d \<Longrightarrow> fst x = fst y \<longleftrightarrow> x = y"
  unfolding disk_ok_def by (metis eq_key_imp_eq_value prod.collapse)

text \<open>One iteration of a removing loop on an entry that is still there.\<close>

lemma os_remove_present:
  assumes "disk_ok d" "x \<in> set d"
  shows "os_remove env (fst x) d =
    (remove_fault env (fst x), filter (\<lambda>y. \<not> (y = x \<and> removable env x)) d)"
proof -
  have "map_of d (fst x) = Some (snd x)"
    using assms by (simp add: disk_ok_def map_of_eq_Some_iff)
  moreover have "filter (\<lambda>y. fst y \<noteq> fst x) d = filter (\<lambda>y. y \<noteq> x) d"
    using same_name [OF assms(1) _ assms(2)] by (auto intro!: filter_cong)
  ultimately show ?thesis
    by (auto simp: os_remove_def delete_filter_name removable_def split: option.split)
qed

lemma clean_loop_step:
  assumes "disk_ok d" "x \<in> set d"
  shows "clean_loop env ttl (x # es) (errs, d) =
    (if expired env ttl x
     then clean_loop env ttl es (if remove_failed env x then errs + 1 else errs,
            filter (\<lambda>y. \<not> (y = x \<and> removable env x)) d)
     else clean_loop env ttl es (errs, d))"
  using os_remove_present [OF assms, of env]
  by (cases x) (auto simp: expired_def remove_failed_def removable_def split: option.split)

lemma clean_loop_exact:
  assumes "distinct es" "disk_ok d" "set es \<subseteq> set d"
  shows "clean_loop env ttl es (errs, d) =
    (errs + length (filter (\<lambda>x. expired env ttl x \<and> remove_failed env x) es),
     filter (\<lambda>x. \<not> (x \<in> set es \<and> expired env ttl x \<and> removable env x)) d)"
  using assms
proof (induction es arbitrary: errs d)
  case (Cons x es)
  let ?d = "filter (\<lambda>y. \<not> (y = x \<and> removable env x)) d"
  have d': "disk_ok ?d" "set es \<subseteq> set ?d"
    using Cons.prems by (auto simp: disk_ok_def distinct_map inj_on_def)
  have x: "x \<in> set d" using Cons.prems by simp
  show ?case
    unfolding clean_loop_step [OF Cons.prems(2) x]
    using Cons.IH [OF _ d'] Cons.IH [OF _ Cons.prems(2)] Cons.prems
    by (auto intro!: filter_cong)
qed simp

lemma clear_loop_step:
  assumes "disk_ok d" "x \<in> set d"
  shows "clear_loop env (x # es) (errs, d) =
    (if is_dir (snd x) then clear_loop env es (errs, d)
     else clear_loop env es (if removable env x then errs else errs + 1,
            filter (\<lambda>y. \<not> (y = x \<and> removable env x)) d))"
  using os_remove_present [OF assms, of env]
  by (cases x) (auto simp: removable_def split: option.split)

lemma clear_loop_exact:
  assumes "distinct es" "disk_ok d" "set es \<subseteq> set d"
  shows "clear_loop env es (errs, d) =
    (errs + length (filter (\<lambda>x. \<not> is_dir (snd x) \<and> \<not> removable env x) es),
     filter (\<lambda>x. \<not> (x \<in> set es \<and> \<not> is_dir (snd x) \<and> removable env x)) d)"
  using assms
proof (induction es arbitrary: errs d)
  case (Cons x es)
  let ?d = "filter (\<lambda>y. \<not> (y = x \<and> removable env x)) d"
  have d': "disk_ok ?d" "set es \<subseteq> set ?d"
    using Cons.prems by (auto simp: disk_ok_def distinct_map inj_on_def)
  have x: "x \<in> set d" using Cons.prems by simp
  show ?case
    unfolding clear_loop_step [OF Cons.prems(2) x]
    using Cons.IH [OF _ d'] Cons.IH [OF _ Cons.prems(2)] Cons.prems
    by (auto intro!: filter_cong)
qed simp

lemma disk_ok_distinct: "disk_ok d \<Longrightarrow> distinct d"
  by (simp add: disk_ok_def distinct_map)

lemma clean_expired_disk:
  assumes "disk_ok (fc_disk fc)" "fc_ttl fc \<noteq> 0" "readdir_fault env = None"
  shows "fc_disk (snd (clean_expired env fc)) =
      filter (\<lambda>x. \<not> (expired env (fc_ttl fc) x \<and> removable env x)) (fc_disk fc)"
    and "fst (clean_expired env fc) = None \<longleftrightarrow>
      \<not> (\<exists>x \<in> set (fc_disk fc). expired env (fc_ttl fc) x \<and> remove_failed env x)"
  using clean_loop_exact [OF disk_ok_distinct [OF assms(1)] assms(1) order_refl, of env "fc_ttl fc" 0]
    assms(2,3)
  by (auto simp: clean_expired_def update_cache_size_metric_def Let_def filter_empty_conv
      cong: filter_cong)

lemma sum_sizes_no_faults:
  "\<forall>n. info_fault env n = None \<Longrightarrow> sum_sizes env d = total_size d"
  by (induction d rule: sum_sizes.induct) (auto simp: weight_def)

section \<open>Properties\<close>

text \<open>An example: digests that mark their text, and a directory with one entry and one subdirectory.\<close>

definition example_sha :: "string \<Rightarrow> string" where
  "example_sha s = CHR ''f'' # s"

definition example_cache :: "duration \<Rightarrow> file_cache" where
  "example_cache ttl =
     \<lparr>fc_dir = ''/c'', fc_ttl = ttl, fc_key_prefix = ''p'', fc_max_size = 0, fc_io_timeout = 5,
      fc_hits = 0, fc_misses = 0, fc_hit_metric = 0, fc_miss_metric = 0, fc_cached_size = 3, fc_size_metric = Some 3,
      fc_disk = [(''fpk'', \<lparr>content = ''abc'', mtime = 10, is_dir = False\<rparr>),
                 (''sub'', \<lparr>content = [], mtime = 0, is_dir = True\<rparr>)]\<rparr>"

lemma example_cache_ok: "file_ok example_sha ''p'' ''.tmp'' (example_cache ttl)"
  by (auto simp: file_ok_def example_cache_def names_def example_sha_def)

lemma example_cache_tracked: "tracked (example_cache ttl)"
  by (simp add: tracked_def example_cache_def disk_ok_def weight_def size_of_def)

text \<open>
  C10: Whichever system call of \<open>Set\<close> fails, the entry is either replaced as a whole
  or left as it was, no other file changes, and the temp file is gone unless removing it fails
  too. An error is reported exactly if the context ended, the data exceeds the limit, or creating,
  writing, closing, chmod or renaming the temp file failed, a directory of the entry's name
  included; only a failing look at the old size is passed over.
\<close>

theorem cache_set_atomic:
  assumes "cache_set sha env key data fc = (e, fc')" and "tmp_name env \<notin> names (fc_disk fc)"
    and "name = key_to_filename sha fc key" and "tmp_name env \<noteq> name"
  shows "(j \<noteq> name \<and> j \<noteq> tmp_name env \<longrightarrow> map_of (fc_disk fc') j = map_of (fc_disk fc) j)
    \<and> map_of (fc_disk fc') name =
        (if e = None then Some \<lparr>content = data, mtime = io_now env, is_dir = False\<rparr>
         else map_of (fc_disk fc) name)
    \<and> (e = None \<or> remove_fault env (tmp_name env) = None \<longrightarrow> map_of (fc_disk fc') (tmp_name env) = None)
    \<and> (e = None \<longleftrightarrow>
         ctx_start env = None \<and> ctx_io env = None \<and> ctx_done env = None
         \<and> (fc_max_size fc \<le> 0 \<or> int (length data) \<le> fc_max_size fc)
         \<and> create_fault env = None \<and> write_fault env = None \<and> close_fault env = None
         \<and> chmod_fault env = None \<and> rename_fault env = None
         \<and> (case map_of (fc_disk fc) name of None \<Rightarrow> True | Some f \<Rightarrow> \<not> is_dir f))"
  using cache_set_disk [OF assms] cache_set_error [OF assms(1,3,4)]
  by (simp add: set_succeeds_def names_dir_def split: option.splits)

definition failing_env :: io_env where
  "failing_env = (no_faults 20 ''.tmp'')\<lparr>write_fault := Some (1, errorf ''disk full'')\<rparr>"

theorem cache_set_atomic_witness:
  "map_of (fc_disk (snd (cache_set example_sha failing_env ''k'' ''xyz'' (example_cache 5)))) ''fpk'' =
     Some \<lparr>content = ''abc'', mtime = 10, is_dir = False\<rparr>"
proof -
  let ?r = "cache_set example_sha failing_env ''k'' ''xyz'' (example_cache 5)"
  have "fst ?r \<noteq> None" "''fpk'' = key_to_filename example_sha (example_cache 5) ''k''"
    "tmp_name failing_env \<noteq> ''fpk''" "map_of (fc_disk (example_cache 5)) ''fpk'' =
       Some \<lparr>content = ''abc'', mtime = 10, is_dir = False\<rparr>"
    "map_of (fc_disk (example_cache 5)) (tmp_name failing_env) = None"
    by code_simp+
  then show ?thesis
    using cache_set_atomic [of example_sha failing_env "''k''" "''xyz''" "example_cache 5"
        "fst ?r" "snd ?r" "''fpk''" "''fpk''", THEN conjunct2, THEN conjunct1]
    by (simp add: names_map_of)
qed

text \<open>
  C39: What a successful \<open>Set\<close> stores, a \<open>Get\<close> of the same key returns
  as long as the entry has not expired and no call fails.
\<close>

theorem set_get_roundtrip:
  assumes "cache_set sha env key data fc = (None, fc')" and "tmp_name env \<notin> names (fc_disk fc)"
    and "tmp_name env \<noteq> key_to_filename sha fc key"
  shows "fst (cache_get sha (no_faults t tmp) key fc') =
    (if fc_ttl fc > 0 \<and> t - io_now env > fc_ttl fc then (None, None) else (Some data, None))"
proof -
  have f: "fc_ttl fc' = fc_ttl fc" "fc_key_prefix fc' = fc_key_prefix fc"
    using cache_set_fields [OF assms(1)] by simp_all
  then have "key_to_filename sha fc' key = key_to_filename sha fc key"
    by (simp add: key_to_filename_def)
  moreover have "map_of (fc_disk fc') (key_to_filename sha fc key) =
      Some \<lparr>content = data, mtime = io_now env, is_dir = False\<rparr>"
    using cache_set_disk [OF assms(1,2) refl assms(3)] by auto
  ultimately show ?thesis
    by (simp add: cache_get_no_faults Let_def f miss_def hit_def)
qed

theorem set_get_roundtrip_witness:
  "fst (cache_get example_sha (no_faults 23 ''.t'') ''j''
      (snd (cache_set example_sha (no_faults 20 ''.tmp'') ''j'' ''xyz'' (example_cache 5)))) =
    (Some ''xyz'', None)"
proof -
  let ?r = "cache_set example_sha (no_faults 20 ''.tmp'') ''j'' ''xyz'' (example_cache 5)"
  have "fst ?r = None" "''.tmp'' \<noteq> key_to_filename example_sha (example_cache 5) ''j''"
    "map_of (fc_disk (example_cache 5)) ''.tmp'' = None" "fc_ttl (example_cache 5) = 5"
    by code_simp+
  then show ?thesis
    using set_get_roundtrip [of example_sha "no_faults 20 ''.tmp''" "''j''" "''xyz''" "example_cache 5"
        "snd ?r" 23 "''.t''"]
    by (simp add: names_map_of prod_eq_iff)
qed

text \<open>
  C17: As long as no system call fails and nothing expires in between, any sequence of
  \<open>Get\<close>, \<open>Set\<close> and \<open>Del\<close> answers as a map from file names
  that only the successful calls change.
\<close>

theorem file_cache_refines_map:
  assumes "file_ok sha prefix tmp fc" and "run_ops (file_backend sha t tmp) ps fc = (bs, ds, fc')"
  shows "length bs = length ps
    \<and> ref_run (file_addr sha prefix) (zip ps bs) (file_view t fc) = (ds, file_view t fc')"
  using fcb.run_ops_refines [OF assms(1) assms(2) [unfolded file_backend_def]] by blast

theorem file_cache_refines_map_witness:
  "fst (snd (run_ops (file_backend example_sha 12 ''.tmp'') [SetOp ''k'' ''xy'', GetOp ''k'', DelOp ''k'', GetOp ''k'']
     (example_cache 5))) = [None, Some ''xy'', None, None]"
proof -
  let ?ps = "[SetOp ''k'' ''xy'', GetOp ''k'', DelOp ''k'', GetOp ''k'']"
  obtain bs ds fc' where r: "run_ops (file_backend example_sha 12 ''.tmp'') ?ps (example_cache 5) = (bs, ds, fc')"
    by (metis surj_pair)
  have "fst (run_ops (file_backend example_sha 12 ''.tmp'') ?ps (example_cache 5)) = [True, True, True, True]"
    by code_simp
  with file_cache_refines_map [OF example_cache_ok r] r show ?thesis by simp
qed

text \<open>
  C40: Where no look-up and no removal fails, the entry's name is no directory and the temp name
  is new, \<open>Set\<close> and \<open>Del\<close> keep the tracked size equal to the sum of the
  sizes of the files in the directory, whether they succeed or not.
\<close>

theorem cache_size_tracked:
  assumes "tracked fc" and "stat_fault env = None" and "\<forall>n. remove_fault env n = None"
    and "tmp_name env \<notin> names (fc_disk fc)" and "tmp_name env \<noteq> key_to_filename sha fc key"
    and "case map_of (fc_disk fc) (key_to_filename sha fc key) of
           None \<Rightarrow> True | Some f \<Rightarrow> \<not> is_dir f"
  shows "tracked (snd (cache_set sha env key data fc)) \<and> tracked (snd (cache_del sha env key fc))"
  using cache_set_tracked [OF assms(1,4) refl assms(5,2) _ assms(6)] cache_del_tracked [OF assms(1,2,6)]
    assms(3) by simp

theorem cache_size_tracked_witness:
  "tracked (snd (cache_set example_sha failing_env ''k'' ''xyz'' (example_cache 5)))
   \<and> tracked (snd (cache_del example_sha failing_env ''k'' (example_cache 5)))"
proof (rule cache_size_tracked [OF example_cache_tracked])
  show "tmp_name failing_env \<notin> names (fc_disk (example_cache 5))"
    unfolding names_map_of by code_simp
  show "tmp_name failing_env \<noteq> key_to_filename example_sha (example_cache 5) ''k''" by code_simp
  show "case map_of (fc_disk (example_cache 5)) (key_to_filename example_sha (example_cache 5) ''k'') of
      None \<Rightarrow> True | Some f \<Rightarrow> \<not> is_dir f" by code_simp
qed (simp_all add: failing_env_def)

text \<open>
  \<open>Get\<close> removes an expired file without adjusting the tracked size, which then
  exceeds the sum by the size of that file.
\<close>

lemma expired_get_overcounts:
  assumes "tracked fc" and "map_of (fc_disk fc) (key_to_filename sha fc key) = Some f"
    and "\<not> is_dir f" and "0 < fc_ttl fc" and "fc_ttl fc < t - mtime f"
  shows "fst (cache_get sha (no_faults t tmp) key fc) = (None, None)
    \<and> fc_cached_size (snd (cache_get sha (no_faults t tmp) key fc)) =
        total_size (fc_disk (snd (cache_get sha (no_faults t tmp) key fc))) + size_of f"
  using assms
  by (simp add: cache_get_no_faults Let_def miss_def tracked_def total_size_delete weight_def)

lemma expired_get_overcounts_witness:
  "fc_cached_size (snd (cache_get example_sha (no_faults 20 ''.tmp'') ''k'' (example_cache 5))) = 3
   \<and> total_size (fc_disk (snd (cache_get example_sha (no_faults 20 ''.tmp'') ''k'' (example_cache 5)))) = 0"
proof -
  let ?r = "cache_get example_sha (no_faults 20 ''.tmp'') ''k'' (example_cache 5)"
  have "map_of (fc_disk (example_cache 5)) (key_to_filename example_sha (example_cache 5) ''k'') =
      Some \<lparr>content = ''abc'', mtime = 10, is_dir = False\<rparr>"
    "fc_cached_size (snd ?r) = 3"
    by code_simp+
  with expired_get_overcounts [OF example_cache_tracked this(1), of 20 "''.tmp''"] show ?thesis
    by (simp add: size_of_def example_cache_def)
qed

text \<open>
  \<open>CleanExpired\<close> removes exactly the expired files it can stat and remove, keeps
  every other entry, and reports an error exactly when a removal failed.
\<close>

lemma clean_expired_exact:
  assumes "disk_ok (fc_disk fc)" and "fc_ttl fc \<noteq> 0" and "readdir_fault env = None"
  shows "fc_disk (snd (clean_expired env fc)) =
      filter (\<lambda>x. if expired env (fc_ttl fc) x then \<not> removable env x else True) (fc_disk fc)
    \<and> (fst (clean_expired env fc) = None \<longleftrightarrow>
         \<not> list_ex (\<lambda>x. expired env (fc_ttl fc) x \<and> remove_failed env x) (fc_disk fc))"
  using clean_expired_disk [OF assms] by (auto simp: list_ex_iff intro!: filter_cong)

lemma clean_expired_exact_witness:
  "map fst (fc_disk (snd (clean_expired (no_faults 20 ''.tmp'') (example_cache (- 1))))) = [''sub'']"
proof -
  have "disk_ok (fc_disk (example_cache (- 1)))" "fc_ttl (example_cache (- 1)) \<noteq> 0"
    "readdir_fault (no_faults 20 ''.tmp'') = None"
    using example_cache_tracked by (auto simp: tracked_def example_cache_def)
  from clean_expired_exact [OF this] show ?thesis
    by (simp add: example_cache_def expired_def removable_def)
qed

text \<open>
  \<open>Clear\<close> removes every file it can; if one removal fails it reports an error and
  leaves the size metric at its old value.
\<close>

lemma cache_clear_exact:
  assumes "disk_ok (fc_disk fc)" and "readdir_fault env = None" and "\<forall>n. info_fault env n = None"
  shows "if list_all (\<lambda>x. is_dir (snd x) \<or> removable env x) (fc_disk fc)
    then fst (cache_clear env fc) = None
      \<and> fc_disk (snd (cache_clear env fc)) = filter (is_dir \<circ> snd) (fc_disk fc)
      \<and> fc_size_metric (snd (cache_clear env fc)) = Some 0
    else fst (cache_clear env fc) \<noteq> None
      \<and> fc_size_metric (snd (cache_clear env fc)) = fc_size_metric fc"
proof -
  let ?left = "filter (\<lambda>x. \<not> (x \<in> set (fc_disk fc) \<and> \<not> is_dir (snd x) \<and> removable env x)) (fc_disk fc)"
  note loop = clear_loop_exact [OF disk_ok_distinct [OF assms(1)] assms(1) order_refl, of env 0]
  have dirs: "total_size (filter (is_dir \<circ> snd) d) = 0" for d
    by (induction d) (auto simp: weight_def)
  show ?thesis
  proof (cases "list_all (\<lambda>x. is_dir (snd x) \<or> removable env x) (fc_disk fc)")
    case True
    then have "?left = filter (is_dir \<circ> snd) (fc_disk fc)"
      "filter (\<lambda>x. \<not> is_dir (snd x) \<and> \<not> removable env x) (fc_disk fc) = []"
      by (auto simp: list_all_iff filter_empty_conv intro!: filter_cong)
    with loop True assms(2) dirs show ?thesis
      by (simp add: cache_clear_def update_cache_size_metric_def Let_def
          sum_sizes_no_faults [OF assms(3)])
  next
    case False
    then have "filter (\<lambda>x. \<not> is_dir (snd x) \<and> \<not> removable env x) (fc_disk fc) \<noteq> []"
      by (auto simp: list_all_iff filter_empty_conv)
    then have "0 < length (filter (\<lambda>x. \<not> is_dir (snd x) \<and> \<not> removable env x) (fc_disk fc))" by simp
    with loop False assms(2) show ?thesis by (simp add: cache_clear_def)
  qed
qed

lemma cache_clear_exact_witness:
  "fc_disk (snd (cache_clear (no_faults 20 ''.tmp'') (example_cache 5))) =
     [(''sub'', \<lparr>content = [], mtime = 0, is_dir = True\<rparr>)]"
proof -
  have "disk_ok (fc_disk (example_cache 5))" using example_cache_tracked by (simp add: tracked_def)
  from cache_clear_exact [OF this, of "no_faults 20 ''.tmp''"] show ?thesis
    by (simp add: example_cache_def removable_def)
qed

end
