(* ===== verification/PolicyProps.thy ===== *)
theory PolicyProps
  imports UrlChecks
begin

text \<open>
  The properties of the SSRF policy: which addresses, URLs and dialed sockets every policy lets
  through, in terms of the address octets.
\<close>

section \<open>Addresses\<close>

text \<open>The address the exceptions of a policy are matched against.\<close>

definition canonical_ip :: "ip \<Rightarrow> ip" where
  "canonical_ip ip =
     (case carried_v4 ip of
        Some (a, b, c, d) \<Rightarrow> if special_v6 ip then ip else [a, b, c, d]
      | None \<Rightarrow> ip)"

lemma local_nat64_not_carried:
  assumes "carried_v4 ip = Some v"
  shows "\<not> (length ip = 16 \<and> take 6 ip = nat64_local_prefix)"
proof (cases "to4 ip")
  case None
  with assms carried_not_v6_block(2) show ?thesis by blast
next
  case (Some w)
  then have "take 12 ip = v4_in_v6_prefix" if "length ip = 16"
    using that by (auto simp: to4_def split: if_splits)
  from arg_cong [OF this, of "take 6"] show ?thesis by (auto simp: v4_in_v6_prefix_def)
qed

lemma permitted_exact:
  "permitted q ip \<longleftrightarrow>
     well_formed_ip ip \<and> \<not> metadata_target ip
     \<and> \<not> (length ip = 16 \<and> take 6 ip = nat64_local_prefix)
     \<and> (allow_private q \<or> \<not> reserved ip \<or> allows q (canonical_ip ip))"
proof (cases "well_formed_ip ip")
  case True
  then show ?thesis
  proof (cases rule: permitted_cases)
    case (v4 a b c d)
    then show ?thesis
      using True local_nat64_not_carried [OF v4(1)]
      by (auto simp: clears_v4 reserved_def canonical_ip_def metadata_target_v4 [OF v4(1)])
  next
    case (special d)
    then show ?thesis
      using True local_nat64_not_carried [OF special(2)]
      by (auto simp: reserved_def reserved_v4_def canonical_ip_def metadata_v4_def
          metadata_target_v4 [OF special(2)])
  next
    case v6
    then show ?thesis
      using True by (auto simp: clears_v6 reserved_def canonical_ip_def)
  qed
qed (simp add: permitted_def)

text \<open>
  C5: \<open>CheckIP\<close> accepts exactly the well-formed addresses that are no metadata
  endpoint (by any encoding), not in the undecodable NAT64 prefix, and are public, or covered by
  the policy's exceptions, or judged by a policy with \<open>AllowPrivate\<close>.
\<close>

theorem check_ip_exact:
  "check_ip (Some q) ip = None \<longleftrightarrow>
     well_formed_ip ip \<and> \<not> metadata_target ip
     \<and> \<not> (length ip = 16 \<and> take 6 ip = nat64_local_prefix)
     \<and> (if reserved ip then allow_private q \<or> allows q (canonical_ip ip) else True)"
  by (auto simp: check_ip_permitted effective_policy_def permitted_exact)

text \<open>
  The nil policy and the zero policy are the same, and accept exactly the well-formed addresses
  outside the reserved ranges, given by their octets.
\<close>

lemma check_ip_default:
  "(check_ip None ip = None \<longleftrightarrow> well_formed_ip ip \<and> \<not> reserved ip)
   \<and> check_ip None ip = check_ip (Some default_ip_policy) ip"
proof -
  have eq: "check_ip None ip = check_ip (Some default_ip_policy) ip" for ip
  proof (induction "None :: ip_policy option" ip rule: check_ip.induct)
    case (1 ip)
    then show ?case
      by (auto simp: check_ip.simps [of _ ip] split: option.split)
  qed
  show ?thesis
    using eq by (simp add: check_ip_permitted effective_policy_def default_permitted)
qed

text \<open>
  C6: No policy, whatever it allows, lets \<open>CheckIP\<close> accept a cloud metadata address
  in any of its IPv4, mapped, NAT64, 6to4, IPv4-compatible or native IPv6 spellings; the denial is
  \<open>ErrBlockedByPolicy\<close>.
\<close>

theorem check_ip_metadata:
  assumes "metadata_target ip"
  shows "\<exists>e. check_ip p ip = Some e \<and> errors_is e ErrBlockedByPolicy"
proof -
  have "check_ip p ip \<noteq> None"
    using assms by (simp add: check_ip_permitted permitted_exact)
  with check_ip_blocked show ?thesis by blast
qed

theorem check_ip_metadata_witness:
  "\<exists>e. check_ip (Some allow_all_private_ips) (nat64_prefix @ [169, 254, 169, 254]) = Some e
     \<and> errors_is e ErrBlockedByPolicy"
  by (rule check_ip_metadata) code_simp

lemma permitted_carried:
  assumes "well_formed_ip ip" "carried_v4 ip = Some (a, b, c, d)" "\<not> special_v6 ip"
  shows "permitted q ip \<longleftrightarrow> permitted q [a, b, c, d]"
proof -
  have "carried_v4 [a, b, c, d] = Some (a, b, c, d)" by (simp add: carried_v4_def)
  moreover have "\<not> special_v6 [a, b, c, d]" by (simp add: special_v6_def)
  ultimately show ?thesis
    using assms local_nat64_not_carried [OF assms(2)]
    by (simp add: permitted_exact reserved_def metadata_target_def canonical_ip_def
        well_formed_ip_def)
qed

lemma permitted_encodings:
  "permitted q (v4_in_v6_prefix @ [a, b, c, d]) \<longleftrightarrow> permitted q [a, b, c, d]"
  "permitted q (nat64_prefix @ [a, b, c, d]) \<longleftrightarrow> permitted q [a, b, c, d]"
  "permitted q ([0x20, 0x02, a, b, c, d, x1, x2, x3, x4, x5, x6, x7, x8, x9, x10])
    \<longleftrightarrow> permitted q [a, b, c, d]"
  by (rule permitted_carried;
      simp add: well_formed_ip_def carried_v4_def v4_in_v6_prefix_def special_v6_def)+

text \<open>
  The IPv4-mapped, NAT64 and 6to4 spellings of an IPv4 address get the verdict of the address
  itself, under every policy.
\<close>

lemma check_ip_encodings:
  "(check_ip p (v4_in_v6_prefix @ [a, b, c, d]) = None \<longleftrightarrow> check_ip p [a, b, c, d] = None)
   \<and> (check_ip p (nat64_prefix @ [a, b, c, d]) = None \<longleftrightarrow> check_ip p [a, b, c, d] = None)
   \<and> (check_ip p [0x20, 0x02, a, b, c, d, x1, x2, x3, x4, x5, x6, x7, x8, x9, x10] = None
      \<longleftrightarrow> check_ip p [a, b, c, d] = None)"
  by (simp only: check_ip_permitted permitted_encodings)

text \<open>
  A policy that allows more accepts more: \<open>CheckIP\<close> is monotone in the exceptions.
\<close>

lemma check_ip_mono:
  assumes "policy_le q r" and "check_ip (Some q) ip = None"
  shows "check_ip (Some r) ip = None"
  using assms permitted_mono by (simp add: check_ip_permitted effective_policy_def)

lemma check_ip_mono_witness:
  "check_ip (Some allow_all_private_ips) [10, 0, 0, 1] = None"
  by (rule check_ip_mono
      [where q = "default_ip_policy\<lparr>allowed_cidrs := [Some (v4net 10 0 0 0 255 0 0 0)]\<rparr>"])
    (rule policy_le_all, code_simp)

section \<open>Policies from CIDR text\<close>

lemma parse_allowed_Inr:
  "parse_allowed cs = Inr ns \<longleftrightarrow> map parse_cidr cs = map Some ns"
  by (induction cs arbitrary: ns) (auto split: option.splits sum.splits, blast)

lemma parse_allowed_Inl: "(\<exists>e. parse_allowed cs = Inl e) \<longleftrightarrow> None \<in> parse_cidr ` set cs"
  by (induction cs) (auto split: option.splits sum.splits)

text \<open>
  C18: \<open>NewIPPolicy\<close> fails exactly when one of the CIDR texts does not parse;
  otherwise the policy it builds accepts, besides the public addresses, exactly those covered by
  one of the parsed blocks, metadata and undecodable addresses always excepted.
\<close>

theorem new_ip_policy_verdict:
  "case new_ip_policy cs of
     Inl e \<Rightarrow> None \<in> parse_cidr ` set cs
   | Inr q \<Rightarrow> None \<notin> parse_cidr ` set cs
       \<and> (check_ip (Some q) ip = None \<longleftrightarrow>
            well_formed_ip ip \<and> \<not> metadata_target ip
            \<and> \<not> (length ip = 16 \<and> take 6 ip = nat64_local_prefix)
            \<and> (if reserved ip
               then \<exists>n. Some n \<in> parse_cidr ` set cs \<and> contains n (canonical_ip ip)
               else True))"
proof (cases "parse_allowed cs")
  case (Inl e)
  then show ?thesis using parse_allowed_Inl [of cs] by (auto simp: new_ip_policy_def)
next
  case (Inr ns)
  then have "set (map parse_cidr cs) = Some ` set ns" by (simp add: parse_allowed_Inr)
  then have im: "parse_cidr ` set cs = Some ` set ns" by simp
  show ?thesis
    unfolding im using Inr
    by (auto simp: new_ip_policy_def check_ip_permitted effective_policy_def permitted_exact
        allows_iff default_ip_policy_def)
qed

text \<open>
  Every CIDR in the package's tables parses, so the package initialisers never panic, and the
  exported copies equal the tables.
\<close>

lemma tables_parse:
  "must_parse_cidrs private_cidrs = Some private_ip_nets
   \<and> must_parse_cidrs metadata_cidrs = Some metadata_ip_nets
   \<and> must_parse_cidrs non_decodable_cidrs = Some non_decodable_ip_nets
   \<and> must_parse_cidrs [''64:ff9b::/96''] = Some [nat64_well_known_net]
   \<and> must_parse_cidrs [''::/96''] = Some [ipv4_compatible_net]
   \<and> clone_ip_nets private_ip_nets = private_ip_nets
   \<and> clone_ip_nets metadata_ip_nets = metadata_ip_nets"
proof -
  have clone: "clone_ip_nets ns = ns" for ns
    by (induction ns) (auto simp: clone_ip_nets_def)
  show ?thesis unfolding clone by (intro conjI refl; code_simp)
qed

section \<open>URLs\<close>

text \<open>
  C11: \<open>ValidateURL\<close> accepts exactly the URLs with an http or https scheme and a host
  that, in any case and with or without a final dot, is no metadata name, no loopback name unless
  the policy allows loopback, no plain number, \<open>0x\<close> number or leading-zero octal
  literal of up to four groups, and, where it is an IP literal, an address the policy permits.
  Other spellings that no IP parser of Go reads, such as 127.1 or 0x7f.0.0.1, count as host names
  and pass. Every refusal of a URL that parses is \<open>ErrBlockedByPolicy\<close>.
\<close>

theorem validate_url_exact:
  "(validate_url parse p raw = None \<longleftrightarrow>
     (case parse raw of Inl _ \<Rightarrow> False | Inr u \<Rightarrow> url_ok (effective_policy p) u))
   \<and> (case validate_url parse p raw of
        None \<Rightarrow> True
      | Some e \<Rightarrow> (\<exists>e'. parse raw = Inl e') \<or> errors_is e ErrBlockedByPolicy)"
proof -
  have "errors_is e ErrBlockedByPolicy"
    if "validate_url parse p raw = Some e" "\<nexists>e'. parse raw = Inl e'" for e
    using that validate_url_denial by (cases "parse raw") blast+
  then show ?thesis by (auto simp: validate_url_iff split: option.split)
qed

text \<open>
  C24: \<open>ValidateURLResolved\<close> accepts exactly the URLs that \<open>ValidateURL\<close>
  accepts and whose host is an IP literal or resolves, with the policy's resolver or the default
  one, to a non-empty list of permitted addresses.
\<close>

theorem validate_url_resolved_exact:
  "validate_url_resolved parse dl p raw = None \<longleftrightarrow>
     (case parse raw of
        Inl _ \<Rightarrow> False
      | Inr u \<Rightarrow> url_ok (effective_policy p) u
          \<and> (is_literal u
             \<or> all_permitted (effective_policy p) (lookup_of dl p (lower_host (hostname u)))))"
  by (rule validate_url_resolved_iff)

text \<open>
  No string is both a non-canonical IP literal and an address \<open>net.ParseIP\<close> accepts,
  so the pattern never blocks a canonical address.
\<close>

lemma non_canonical_disjoint:
  assumes "match_string non_canonical_ip_pattern s"
  shows "parse_ip s = None"
  using assms by (rule non_canonical_unparsed)

lemma non_canonical_disjoint_witness: "parse_ip ''0177.0.0.1'' = None"
  by (rule non_canonical_disjoint) code_simp

text \<open>
  A URL whose host is a decimal number or a hexadecimal literal is blocked under every policy.
\<close>

lemma numeric_host_blocked:
  assumes "parse raw = Inr u"
    and "numeric_literal (host_text u) \<or> hex_literal (host_text u)"
  shows "\<exists>e. validate_url parse p raw = Some e \<and> errors_is e ErrBlockedByPolicy"
proof -
  from assms(2) have "\<not> url_ok (effective_policy p) u"
    by (auto simp: url_ok_def)
  with assms(1) have "validate_url parse p raw \<noteq> None" by (simp add: validate_url_iff)
  with validate_url_denial [of parse raw u p] assms(1) show ?thesis by blast
qed

lemma numeric_host_blocked_witness:
  "\<exists>e. validate_url
       (\<lambda>s. Inr \<lparr>url_scheme = ''http'', url_host = s, url_path = []\<rparr>)
       (Some allow_all_private_ips) ''2130706433'' = Some e
     \<and> errors_is e ErrBlockedByPolicy"
  by (rule numeric_host_blocked [OF refl]) code_simp

section \<open>Dialed addresses\<close>

text \<open>
  C25: The dial hook, applied to the address the dialer writes with
  \<open>net.JoinHostPort\<close>, accepts exactly the hosts that are IP addresses, zone suffix
  aside, the policy permits; a host name is refused. Every refusal is
  \<open>ErrBlockedByPolicy\<close>.
\<close>

theorem control_func_exact:
  assumes "plain_host h" "plain_port pt"
  shows "(control_func p (join_host_port h pt) = None \<longleftrightarrow>
       (case parse_ip (strip_zone h) of
          None \<Rightarrow> False
        | Some ip \<Rightarrow> permitted (effective_policy p) ip))
     \<and> (case control_func p (join_host_port h pt) of
          None \<Rightarrow> True | Some e \<Rightarrow> errors_is e ErrBlockedByPolicy)"
  using control_func_denial
  by (auto simp: control_func_iff split_join_host_port [OF assms] split: option.split)

theorem control_func_exact_witness:
  "control_func (Some allow_all_private_ips) (join_host_port ''fe80::1%eth0'' ''443'') = None"
  using control_func_exact [of "''fe80::1%eth0''" "''443''" "Some allow_all_private_ips"]
  by code_simp

text \<open>
  The check of the URL text alone lets the short and mixed dotted spellings of 127.0.0.1 through
  as host names, under the default policy: \<open>net.ParseIP\<close> refuses them and the pattern
  does not match them. The dial-time check is what stops them.
\<close>

lemma short_dotted_passes:
  "let parse = (\<lambda>s. Inr \<lparr>url_scheme = ''http'', url_host = s, url_path = []\<rparr>)
   in validate_url_not_private parse ''127.1'' = None
      \<and> validate_url_not_private parse ''127.0.1'' = None
      \<and> validate_url_not_private parse ''0x7f.0.0.1'' = None"
  by code_simp

end
