(* ===== verification/Fingerprint.thy ===== *)
theory Fingerprint
  imports PolicyProps "HOL-Library.List_Lexorder" "HOL-Library.Char_ord" "HOL-Library.Multiset"
begin

text \<open>
  The policy fingerprint of \<open>ssrf.go\<close>, with the texts of addresses and networks it writes.
  SHA-256 in hexadecimal is a parameter.
\<close>

section \<open>Texts\<close>

definition digit_char :: "nat \<Rightarrow> char" where
  "digit_char n = ''0123456789abcdef'' ! n"

text \<open>A number in a base between 2 and 16, without leading zeros.\<close>

fun based_string :: "nat \<Rightarrow> nat \<Rightarrow> string" where
  "based_string b n =
     (if b < 2 \<or> n < b then [digit_char (n mod 16)]
      else based_string b (n div b) @ [digit_char (n mod b)])"

declare based_string.simps [simp del]

definition dec_string :: "nat \<Rightarrow> string" where
  "dec_string n = based_string 10 n"

definition hex_pair :: "byte \<Rightarrow> string" where
  "hex_pair b = [digit_char (unat b div 16), digit_char (unat b mod 16)]"

definition hex_bytes :: "byte list \<Rightarrow> string" where
  "hex_bytes bs = concat (map hex_pair bs)"

definition v4_string :: "ip \<Rightarrow> string" where
  "v4_string ip = join_char (CHR ''.'') (map (\<lambda>b. dec_string (unat b)) ip)"

text \<open>The eight groups of a 16-byte address, and the run of zeros written as two colons.\<close>

fun groups :: "ip \<Rightarrow> nat list" where
  "groups (a # b # r) = (unat a * 256 + unat b) # groups r"
| "groups _ = []"

fun zero_runs :: "nat list \<Rightarrow> nat \<Rightarrow> nat \<times> nat \<Rightarrow> nat \<times> nat" where
  "zero_runs [] i best = best"
| "zero_runs (g # gs) i best =
     (let l = length (takeWhile (\<lambda>x. x = 0) (g # gs))
      in zero_runs gs (i + 1) (if l \<ge> 2 \<and> l > snd best then (i, l) else best))"

definition v6_string :: "ip \<Rightarrow> string" where
  "v6_string ip =
     (let gs = groups ip; (start, len) = zero_runs gs 0 (8, 0);
          txt = (\<lambda>xs. join_char (CHR '':'') (map (based_string 16) xs))
      in if len = 0 then txt gs
         else txt (take start gs) @ ''::'' @ txt (drop (start + len) gs))"

definition ip_string :: "ip \<Rightarrow> string" where
  "ip_string ip =
     (if length ip = 0 then ''<nil>''
      else if length ip \<noteq> 4 \<and> length ip \<noteq> 16 then CHR ''?'' # hex_bytes ip
      else (case to4 ip of Some v \<Rightarrow> v4_string v | None \<Rightarrow> v6_string ip))"

text \<open>The length of a prefix mask, \<open>None\<close> for another mask.\<close>

fun lead_ones :: "nat \<Rightarrow> byte \<Rightarrow> nat \<Rightarrow> nat option" where
  "lead_ones 0 v n = (if v = 0 then Some n else None)"
| "lead_ones (Suc fuel) v n =
     (if v AND 0x80 \<noteq> 0 then lead_ones fuel (push_bit 1 v) (n + 1)
      else if v = 0 then Some n else None)"

fun simple_mask_length :: "byte list \<Rightarrow> nat option" where
  "simple_mask_length [] = Some 0"
| "simple_mask_length (v # m) =
     (if v = 0xff then map_option ((+) 8) (simple_mask_length m)
      else (case lead_ones 8 v 0 of
          None \<Rightarrow> None
        | Some n \<Rightarrow> if list_all (\<lambda>b. b = 0) m then Some n else None))"

definition mask_string :: "byte list \<Rightarrow> string" where
  "mask_string m = (if m = [] then ''<nil>'' else hex_bytes m)"

definition ipnet_string :: "ipnet \<Rightarrow> string" where
  "ipnet_string n =
     (case network_number_and_mask n of
        (nn, m) \<Rightarrow>
          if nn = [] \<or> m = [] then ''<nil>''
          else ip_string nn @ CHR ''/'' #
            (case simple_mask_length m of None \<Rightarrow> mask_string m | Some l \<Rightarrow> dec_string l))"

section \<open>The fingerprint\<close>

text \<open>
  \<open>resolverIdentity\<close>: \<open>resolver_addressable\<close> says whether the kind is one of
  \<open>addressableKinds\<close>.
\<close>

definition resolver_identity :: "resolver option \<Rightarrow> string" where
  "resolver_identity r =
     (case r of
        None \<Rightarrow> ''default''
      | Some r \<Rightarrow>
          if resolver_addressable r
          then (case resolver_pointer r of
              None \<Rightarrow> resolver_type r @ ''(nil)''
            | Some p \<Rightarrow> resolver_type r @ ''@'' @ dec_string (nat p))
          else resolver_type r @ resolver_repr r)"

definition bool_string :: "bool \<Rightarrow> string" where
  "bool_string b = (if b then ''true'' else ''false'')"

definition allowed_cidr_strings :: "ip_policy \<Rightarrow> string list" where
  "allowed_cidr_strings p = map ipnet_string (map the (filter (\<lambda>n. n \<noteq> None) (allowed_cidrs p)))"

text \<open>What is written to the hash.\<close>

definition fingerprint_text :: "ip_policy option \<Rightarrow> string" where
  "fingerprint_text p =
     (case p of
        None \<Rightarrow> ''nil''
      | Some p \<Rightarrow>
          ''allowPrivate='' @ bool_string (allow_private p) @ '';trustProxyResolution=''
            @ bool_string (trust_proxy_resolution p) @ '';''
            @ ''resolver='' @ resolver_identity (policy_resolver p) @ '';''
            @ concat (map (\<lambda>c. ''cidr='' @ c @ '';'') (sort (allowed_cidr_strings p))))"

definition fingerprint :: "(string \<Rightarrow> string) \<Rightarrow> ip_policy option \<Rightarrow> string" where
  "fingerprint sha_hex p = take 16 (sha_hex (fingerprint_text p))"

section \<open>Texts are unambiguous\<close>

definition digit_value :: "char \<Rightarrow> nat" where
  "digit_value c = length (takeWhile (\<lambda>x. x \<noteq> c) ''0123456789abcdef'')"

lemma digit_value_char: "n < 16 \<Longrightarrow> digit_value (digit_char n) = n"
proof -
  have "\<forall>n \<in> set [0..<16]. digit_value (digit_char n) = n" by code_simp
  then show "n < 16 \<Longrightarrow> ?thesis" by simp
qed

definition text_value :: "nat \<Rightarrow> string \<Rightarrow> nat" where
  "text_value b s = foldl (\<lambda>v c. v * b + digit_value c) 0 s"

lemma mod_below_16: "2 \<le> b \<Longrightarrow> b \<le> 16 \<Longrightarrow> (n :: nat) mod b < 16"
  using mod_less_divisor [of b n] by linarith

lemma text_value_based: "2 \<le> b \<Longrightarrow> b \<le> 16 \<Longrightarrow> text_value b (based_string b n) = n"
proof (induction b n rule: based_string.induct)
  case (1 b n)
  show ?case
  proof (cases "n < b")
    case True
    with 1 show ?thesis
      by (simp add: based_string.simps [of b n] text_value_def digit_value_char)
  next
    case False
    have "digit_value (digit_char (n mod b)) = n mod b"
      using 1(2,3) by (intro digit_value_char mod_below_16)
    with False 1 show ?thesis
      by (simp add: based_string.simps [of b n] text_value_def)
  qed
qed

lemma based_string_inj: "2 \<le> b \<Longrightarrow> b \<le> 16 \<Longrightarrow> based_string b m = based_string b n \<Longrightarrow> m = n"
  by (metis text_value_based)

lemma digit_char_hex: "n < 16 \<Longrightarrow> is_hex (digit_char n)"
proof -
  have "\<forall>n \<in> set [0..<16]. is_hex (digit_char n)" by code_simp
  then show "n < 16 \<Longrightarrow> ?thesis" by simp
qed

lemma based_string_hex: "2 \<le> b \<Longrightarrow> b \<le> 16 \<Longrightarrow> list_all is_hex (based_string b n) \<and> based_string b n \<noteq> []"
proof (induction b n rule: based_string.induct)
  case (1 b n)
  then have "n mod b < 16" by (intro mod_below_16)
  with 1 show ?case
    by (auto simp: based_string.simps [of b n] digit_char_hex)
qed

lemma hex_not: "is_hex c \<Longrightarrow> c \<notin> {CHR '':'', CHR ''.'', CHR ''/'', CHR '';'', CHR ''<'', CHR ''?''}"
  by (auto simp: is_hex_def is_digit_def in_range_def code_def)

lemma based_string_free:
  assumes "2 \<le> b" "b \<le> 16" "c \<in> {CHR '':'', CHR ''.'', CHR ''/'', CHR '';'', CHR ''<'', CHR ''?''}"
  shows "c \<notin> set (based_string b n)"
  using based_string_hex [OF assms(1,2), of n] hex_not [of c] assms(3) by (auto simp: list_all_iff)

lemma v4_string_inj:
  assumes "v4_string x = v4_string y" "x \<noteq> []" "y \<noteq> []"
  shows "x = y"
proof -
  let ?f = "\<lambda>b :: byte. dec_string (unat b)"
  have free: "\<forall>s \<in> set (map ?f z). CHR ''.'' \<notin> set s" for z
    by (auto simp: dec_string_def based_string_free)
  have "map ?f x = map ?f y"
    using arg_cong [OF assms(1), of "split_char (CHR ''.'')"] assms(2,3) free
    by (simp add: v4_string_def split_join)
  moreover have "inj ?f"
    by (auto intro!: injI dest!: based_string_inj [rotated 2] simp: dec_string_def word_unat_eq_iff)
  ultimately show ?thesis by (simp add: inj_map_eq_map)
qed

subsection \<open>IPv6\<close>

lemma base_256_unique: "q < 256 \<Longrightarrow> s < 256 \<Longrightarrow> p * 256 + q = r * 256 + s \<Longrightarrow> p = r \<and> q = (s :: nat)"
  by (cases p r rule: linorder_cases) linarith+

lemma groups_inj:
  "groups x = groups y \<Longrightarrow> even (length x) \<Longrightarrow> even (length y) \<Longrightarrow> x = y"
proof (induction x arbitrary: y rule: groups.induct)
  case (1 a b r)
  then obtain c d r' where y: "y = c # d # r'" "groups r = groups r'"
    and e: "unat a * 256 + unat b = unat c * 256 + unat d"
    by (cases y rule: groups.cases) auto
  have lt: "unat v < 256" for v :: byte by (rule less_le_trans [OF unsigned_less]) simp
  have "unat a = unat c \<and> unat b = unat d"
    by (rule base_256_unique [OF lt lt e])
  with 1 y show ?case by (auto simp: word_unat_eq_iff)
next
  case "2_1"
  then show ?case by (cases y rule: groups.cases) auto
next
  case "2_2"
  then show ?case by simp
qed

lemma length_groups: "length (groups x) = length x div 2"
  by (induction x rule: groups.induct) auto

text \<open>The run of zeros found is one, and lies within the groups.\<close>

definition run_ok :: "nat list \<Rightarrow> nat \<times> nat \<Rightarrow> bool" where
  "run_ok gs r \<longleftrightarrow> snd r = 0 \<or> (2 \<le> snd r \<and> fst r + snd r \<le> length gs
     \<and> take (snd r) (drop (fst r) gs) = replicate (snd r) 0)"

lemma zero_runs_ok:
  "run_ok (pre @ gs) best \<Longrightarrow> run_ok (pre @ gs) (zero_runs gs (length pre) best)"
proof (induction gs arbitrary: pre best)
  case (Cons g gs)
  let ?l = "length (takeWhile (\<lambda>x. x = 0) (g # gs))"
  have t: "take ?l (g # gs) = replicate ?l 0"
    by (metis (full_types) replicate_length_same set_takeWhileD takeWhile_eq_take)
  have len: "?l \<le> length (g # gs)" by (rule length_takeWhile_le)
  have "run_ok (pre @ g # gs) (if ?l \<ge> 2 \<and> ?l > snd best then (length pre, ?l) else best)"
    using Cons.prems t len by (simp add: run_ok_def)
  with Cons.IH [of "pre @ [g]"] show ?case by (simp only: zero_runs.simps Let_def) simp
qed simp

lemma zero_runs_split:
  assumes "zero_runs gs 0 (8, 0) = (start, len)" "len \<noteq> 0"
  shows "gs = take start gs @ replicate len 0 @ drop (start + len) gs"
proof -
  have "run_ok gs (8, 0)" by (simp add: run_ok_def)
  with zero_runs_ok [of "[]" gs "(8, 0)"] assms
  have "take len (drop start gs) = replicate len 0" by (simp add: run_ok_def)
  then show ?thesis
    by (metis append_take_drop_id drop_drop add.commute)
qed

text \<open>Reading the groups back: an empty piece between colons marks the run of zeros.\<close>

definition v6_pieces :: "string \<Rightarrow> nat list" where
  "v6_pieces s =
     (let ps = split_char (CHR '':'') s;
          front = takeWhile (\<lambda>p. p \<noteq> []) ps;
          back = rev (takeWhile (\<lambda>p. p \<noteq> []) (rev ps))
      in if length front = length ps then map (text_value 16) ps
         else map (text_value 16) front @ replicate (8 - length front - length back) 0
                @ map (text_value 16) back)"

abbreviation "group_texts xs \<equiv> map (based_string 16) xs"

lemma group_texts_props:
  "\<forall>p \<in> set (group_texts xs). p \<noteq> []" "\<forall>p \<in> set (group_texts xs). CHR '':'' \<notin> set p"
  "map (text_value 16) (group_texts xs) = xs"
  using based_string_hex [of 16] by (auto simp: based_string_free text_value_based map_idI)

lemma split_join_or_empty:
  "\<forall>x \<in> set xs. c \<notin> set x \<Longrightarrow> split_char c (join_char c xs) = (if xs = [] then [[]] else xs)"
  by (simp add: split_join)

lemma split_char_around:
  "split_char c (x @ c # y) = split_char c x @ split_char c y"
proof (induction x)
  case (Cons a x)
  show ?case
    using Cons by (cases "split_char c x"; cases "split_char c (x @ c # y)") (auto simp: split_char_ne)
qed simp

lemma pieces_of_v6:
  "split_char (CHR '':'') (join_char (CHR '':'') (group_texts xs) @ ''::''
      @ join_char (CHR '':'') (group_texts ys)) =
    (if xs = [] then [[]] else group_texts xs) @ [] # (if ys = [] then [[]] else group_texts ys)"
  using split_char_around [of "CHR '':''" "join_char (CHR '':'') (group_texts xs)"
      "CHR '':'' # join_char (CHR '':'') (group_texts ys)"]
    split_char_around [of "CHR '':''" "[]" "join_char (CHR '':'') (group_texts ys)"]
  by (simp add: split_join_or_empty group_texts_props)

lemma front_back:
  assumes "\<forall>p \<in> set xs. p \<noteq> []" "\<forall>p \<in> set ys. p \<noteq> []"
  shows "takeWhile (\<lambda>p. p \<noteq> []) ((if xs = [] then [[]] else xs) @ [] # zs) = xs"
    and "rev (takeWhile (\<lambda>p. p \<noteq> []) (rev (zs @ [] # (if ys = [] then [[]] else ys)))) = ys"
  using assms by (auto simp: takeWhile_append)

lemma v6_pieces_string:
  assumes "length ip = 16"
  shows "v6_pieces (v6_string ip) = groups ip"
proof -
  let ?gs = "groups ip"
  obtain start len where z: "zero_runs ?gs 0 (8, 0) = (start, len)" by fastforce
  have l8: "length ?gs = 8" using assms by (simp add: length_groups)
  show ?thesis
  proof (cases "len = 0")
    case True
    then have s: "split_char (CHR '':'') (v6_string ip) = group_texts ?gs"
      using z l8 by (auto simp: v6_string_def Let_def split_join_or_empty group_texts_props)
    show ?thesis
      using group_texts_props(1,3) [of ?gs] by (simp add: v6_pieces_def Let_def s takeWhile_all)
  next
    case False
    let ?a = "take start ?gs" and ?b = "drop (start + len) ?gs"
    have split: "?gs = ?a @ replicate len 0 @ ?b" by (rule zero_runs_split [OF z False])
    let ?ps = "split_char (CHR '':'') (v6_string ip)"
    have ps: "?ps = (if ?a = [] then [[]] else group_texts ?a) @ [] #
        (if ?b = [] then [[]] else group_texts ?b)"
      using z False pieces_of_v6 [of ?a ?b] by (simp add: v6_string_def Let_def)
    have fr: "takeWhile (\<lambda>p. p \<noteq> []) ?ps = group_texts ?a"
      using front_back(1) [of "group_texts ?a" "[]"] group_texts_props(1) [of ?a]
      unfolding ps by (cases "?a = []") auto
    have bk: "rev (takeWhile (\<lambda>p. p \<noteq> []) (rev ?ps)) = group_texts ?b"
      using front_back(2) [of "[]" "group_texts ?b"] group_texts_props(1) [of ?b]
      unfolding ps by (cases "?b = []") auto
    have "length (group_texts ?a) \<noteq> length ?ps" unfolding ps by auto
    moreover have "8 - length ?a - length ?b = len"
      using arg_cong [OF split, of length] l8 by simp
    ultimately show ?thesis
      using split by (simp add: v6_pieces_def Let_def fr bk group_texts_props(3) del: map_map)
  qed
qed

lemma v6_string_inj: "length x = 16 \<Longrightarrow> length y = 16 \<Longrightarrow> v6_string x = v6_string y \<Longrightarrow> x = y"
  using v6_pieces_string [of x] v6_pieces_string [of y] groups_inj [of x y] by simp

subsection \<open>Addresses, masks and networks\<close>

definition addr_char :: "char \<Rightarrow> bool" where
  "addr_char c \<longleftrightarrow> is_hex c \<or> c = CHR '':'' \<or> c = CHR ''.''"

lemma addr_char_not: "addr_char c \<Longrightarrow> c \<notin> {CHR ''/'', CHR '';'', CHR ''<'', CHR ''?''}"
  using hex_not [of c] by (auto simp: addr_char_def)

lemma join_char_member: "c \<in> set (join_char d xs) \<Longrightarrow> c = d \<or> (\<exists>p \<in> set xs. c \<in> set p)"
  by (induction d xs rule: join_char.induct) auto

lemma join_char_sep: "length xs \<ge> 2 \<Longrightarrow> c \<in> set (join_char c xs)"
  by (induction c xs rule: join_char.induct) auto

lemma group_text_chars: "c \<in> set (join_char (CHR '':'') (group_texts xs)) \<Longrightarrow> addr_char c"
  using based_string_hex [of 16]
  by (drule_tac join_char_member) (auto simp: addr_char_def list_all_iff)

lemma v6_string_cases:
  obtains (plain) "v6_string ip = join_char (CHR '':'') (group_texts (groups ip))"
  | (short) xs ys where "v6_string ip =
      join_char (CHR '':'') (group_texts xs) @ ''::'' @ join_char (CHR '':'') (group_texts ys)"
  by (cases "zero_runs (groups ip) 0 (8, 0)"; cases "snd (zero_runs (groups ip) 0 (8, 0)) = 0")
    (auto simp: v6_string_def Let_def)

lemma v6_string_chars: "c \<in> set (v6_string ip) \<Longrightarrow> addr_char c"
  by (cases rule: v6_string_cases [of ip]) (auto simp: addr_char_def [of "CHR '':''"] dest: group_text_chars)

lemma v4_string_chars: "c \<in> set (v4_string ip) \<Longrightarrow> addr_char c \<and> c \<noteq> CHR '':''"
proof -
  assume "c \<in> set (v4_string ip)"
  then have "c = CHR ''.'' \<or> is_hex c"
    using based_string_hex [of 10] unfolding v4_string_def dec_string_def
    by (drule_tac join_char_member) (auto simp: list_all_iff)
  then show ?thesis using hex_not [of c] by (auto simp: addr_char_def)
qed

lemma v6_string_colon: "length ip = 16 \<Longrightarrow> CHR '':'' \<in> set (v6_string ip)"
  by (cases rule: v6_string_cases [of ip]) (auto simp: length_groups intro!: join_char_sep)

definition canonical_net_ip :: "ip \<Rightarrow> bool" where
  "canonical_net_ip ip \<longleftrightarrow> length ip = 4 \<or> (length ip = 16 \<and> to4 ip = None)"

lemma ip_string_cases:
  assumes "canonical_net_ip ip"
  shows "ip_string ip = (if length ip = 4 then v4_string ip else v6_string ip)"
  using assms by (auto simp: canonical_net_ip_def ip_string_def to4_def split: if_splits)

lemma ip_string_chars: "canonical_net_ip ip \<Longrightarrow> c \<in> set (ip_string ip) \<Longrightarrow> addr_char c"
  by (auto simp: ip_string_cases dest: v4_string_chars v6_string_chars split: if_splits)

lemma ip_string_inj:
  assumes "canonical_net_ip x" "canonical_net_ip y" "ip_string x = ip_string y"
  shows "x = y"
proof -
  have colon: "CHR '':'' \<in> set (ip_string z) \<longleftrightarrow> length z \<noteq> 4" if "canonical_net_ip z" for z
    using that v6_string_colon [of z] v4_string_chars [of "CHR '':''" z]
    by (auto simp: ip_string_cases canonical_net_ip_def)
  have same: "length x = 4 \<longleftrightarrow> length y = 4"
    using colon [OF assms(1)] colon [OF assms(2)] assms(3) by simp
  show ?thesis
  proof (cases "length x = 4")
    case True
    with same assms have "v4_string x = v4_string y" by (simp add: ip_string_cases)
    moreover have "x \<noteq> []" "y \<noteq> []" using True same by auto
    ultimately show ?thesis by (rule v4_string_inj)
  next
    case False
    with same assms show ?thesis
      by (intro v6_string_inj) (auto simp: ip_string_cases canonical_net_ip_def)
  qed
qed

lemma byte_all: "(\<forall>v :: byte. P v) \<longleftrightarrow> list_all P (map word_of_nat [0..<256])"
proof
  assume "list_all P (map word_of_nat [0..<256])"
  then have *: "P (word_of_nat n)" if "n < 256" for n using that by (auto simp: list_all_iff)
  show "\<forall>v. P v"
  proof
    fix v :: byte
    have "unat v < 256" by (rule less_le_trans [OF unsigned_less]) simp
    from * [OF this] show "P v" by simp
  qed
qed (simp add: list_all_iff)

definition lead_ones_exact :: "byte \<Rightarrow> bool" where
  "lead_ones_exact v \<longleftrightarrow>
     (case lead_ones 8 v 0 of None \<Rightarrow> True | Some k \<Rightarrow> v = NOT (drop_bit k 255) \<and> (v = 255 \<or> k < 8))"

lemma lead_ones_exact: "lead_ones_exact v"
proof -
  have "list_all lead_ones_exact (map word_of_nat [0..<256])" by code_simp
  with byte_all [of lead_ones_exact] show ?thesis by blast
qed

lemma mask_bytes_zero: "list_all (\<lambda>b. b = 0) m \<Longrightarrow> m = mask_bytes (length m) 0"
  by (induction m) auto

lemma simple_mask_length_bytes:
  "simple_mask_length m = Some l \<Longrightarrow> m = mask_bytes (length m) l \<and> l \<le> 8 * length m"
proof (induction m arbitrary: l)
  case (Cons v m)
  show ?case
  proof (cases "v = 0xff")
    case True
    with Cons show ?thesis by (auto split: if_splits)
  next
    case False
    with Cons.prems obtain n where n: "lead_ones 8 v 0 = Some n" "list_all (\<lambda>b. b = 0) m" "l = n"
      by (auto split: option.splits if_splits)
    with lead_ones_exact [of v] False have "v = NOT (drop_bit n 255)" "n < 8"
      by (simp_all add: lead_ones_exact_def)
    with n mask_bytes_zero [OF n(2)] show ?thesis by simp
  qed
qed simp

lemma digit_char_inj: "m < 16 \<Longrightarrow> n < 16 \<Longrightarrow> digit_char m = digit_char n \<Longrightarrow> m = n"
  by (metis digit_value_char)

lemma byte_below: "unat (v :: byte) < 256"
  by (rule less_le_trans [OF unsigned_less]) simp

lemma hex_pair_inj: "hex_pair a = hex_pair b \<Longrightarrow> a = b"
proof -
  assume "hex_pair a = hex_pair b"
  moreover have "unat v div 16 < 16" "unat v mod 16 < 16" for v :: byte
    using byte_below [of v] by (auto simp: less_mult_imp_div_less)
  ultimately have "unat a div 16 = unat b div 16" "unat a mod 16 = unat b mod 16"
    using digit_char_inj by (simp_all add: hex_pair_def)
  then have "unat a = unat b" by (metis div_mult_mod_eq)
  then show "a = b" by (simp add: word_unat_eq_iff)
qed

lemma hex_bytes_inj: "hex_bytes x = hex_bytes y \<Longrightarrow> x = y"
proof (induction x arbitrary: y)
  case Nil
  then show ?case by (cases y) (auto simp: hex_bytes_def hex_pair_def)
next
  case (Cons a x)
  then obtain b z where y: "y = b # z" by (cases y) (auto simp: hex_bytes_def hex_pair_def)
  with Cons.prems have "hex_pair a = hex_pair b" "hex_bytes x = hex_bytes z"
    by (auto simp: hex_bytes_def hex_pair_def)
  with Cons.IH hex_pair_inj y show ?case by blast
qed

lemma length_hex_bytes: "length (hex_bytes m) = 2 * length m"
  by (induction m) (auto simp: hex_bytes_def hex_pair_def)

lemma length_dec_string: "n \<le> 128 \<Longrightarrow> length (dec_string n) \<le> 3"
proof -
  have "\<forall>n \<in> set [0..<129]. length (dec_string n) \<le> 3" by code_simp
  then show "n \<le> 128 \<Longrightarrow> ?thesis" by simp
qed

definition mask_text :: "byte list \<Rightarrow> string" where
  "mask_text m = (case simple_mask_length m of None \<Rightarrow> mask_string m | Some l \<Rightarrow> dec_string l)"

lemma mask_text_inj:
  assumes "length x = length y" "length x = 4 \<or> length x = 16" "mask_text x = mask_text y"
  shows "x = y"
proof -
  have short: "length (mask_text z) \<le> 3 \<longleftrightarrow> simple_mask_length z \<noteq> None"
    if "length z = 4 \<or> length z = 16" for z
    using that simple_mask_length_bytes [of z] length_dec_string
    by (force simp: mask_text_def mask_string_def length_hex_bytes split: option.split)
  show ?thesis
  proof (cases "simple_mask_length x")
    case None
    with short [of x] short [of y] assms have "simple_mask_length y = None" by auto
    moreover have "x \<noteq> []" "y \<noteq> []" using assms by auto
    ultimately show ?thesis
      using None assms(3) by (intro hex_bytes_inj) (simp add: mask_text_def mask_string_def)
  next
    case (Some l)
    with short [of x] short [of y] assms obtain k where k: "simple_mask_length y = Some k" by auto
    with Some assms(3) have "l = k"
      using based_string_inj [of 10] by (simp add: mask_text_def dec_string_def)
    with Some k simple_mask_length_bytes assms(1) show ?thesis by metis
  qed
qed

lemma network_cases:
  obtains (nil) "network_number_and_mask n = ([], [])"
  | (net) nn m where "network_number_and_mask n = (nn, m)" "canonical_net_ip nn" "length m = length nn"
proof (cases "to4 (net_ip n)")
  case None
  then have l: "length (net_ip n) \<noteq> 4" by (auto simp: to4_def)
  show ?thesis
  proof (cases "length (net_ip n) = 16 \<and> length (net_mask n) = 16")
    case True
    with None l net show ?thesis
      by (auto simp: network_number_and_mask_def Let_def canonical_net_ip_def)
  next
    case False
    with None l nil show ?thesis by (auto simp: network_number_and_mask_def Let_def)
  qed
next
  case (Some v)
  then have l: "length v = 4" by (rule to4_length)
  show ?thesis
  proof (cases "length (net_mask n) = 4 \<or> length (net_mask n) = 16")
    case True
    with Some l net show ?thesis
      by (auto simp: network_number_and_mask_def Let_def canonical_net_ip_def)
  next
    case False
    with Some l nil show ?thesis by (auto simp: network_number_and_mask_def Let_def)
  qed
qed

lemma net_text_free: "canonical_net_ip nn \<Longrightarrow> CHR ''/'' \<notin> set (ip_string nn)"
  using ip_string_chars addr_char_not by blast

lemma ipnet_string_net:
  assumes "network_number_and_mask n = (nn, m)" "canonical_net_ip nn" "length m = length nn"
  shows "ipnet_string n = ip_string nn @ CHR ''/'' # mask_text m"
  using assms by (auto simp: ipnet_string_def mask_text_def canonical_net_ip_def)

text \<open>Networks with the same text contain the same addresses.\<close>

lemma ipnet_string_inj:
  assumes "ipnet_string a = ipnet_string b"
  shows "network_number_and_mask a = network_number_and_mask b"
proof -
  have slash: "CHR ''/'' \<in> set (ipnet_string n) \<longleftrightarrow> network_number_and_mask n \<noteq> ([], [])" for n
    by (cases rule: network_cases [of n])
      (auto simp: ipnet_string_net, auto simp: ipnet_string_def canonical_net_ip_def)
  show ?thesis
  proof (cases rule: network_cases [of a])
    case nil
    with slash [of a] slash [of b] assms show ?thesis by auto
  next
    case a: (net nn m)
    then have "nn \<noteq> []" by (auto simp: canonical_net_ip_def)
    with a slash [of a] slash [of b] assms have "network_number_and_mask b \<noteq> ([], [])" by auto
    then obtain nn' m' where b: "network_number_and_mask b = (nn', m')" "canonical_net_ip nn'"
      "length m' = length nn'"
      by (cases rule: network_cases [of b]) auto
    have "ip_string nn @ CHR ''/'' # mask_text m = ip_string nn' @ CHR ''/'' # mask_text m'"
      using assms ipnet_string_net [OF a] ipnet_string_net [OF b] by simp
    from arg_cong [OF this, of "cut_char (CHR ''/'')"]
    have eq: "ip_string nn = ip_string nn'" "mask_text m = mask_text m'"
      using net_text_free [OF a(2)] net_text_free [OF b(2)] by (simp_all add: cut_char_to)
    from ip_string_inj [OF a(2) b(2) eq(1)] have "nn = nn'" .
    with a b eq(2) mask_text_inj [of m m'] show ?thesis by (auto simp: canonical_net_ip_def)
  qed
qed

section \<open>What equal fingerprints mean\<close>

lemma contains_same_text: "ipnet_string a = ipnet_string b \<Longrightarrow> contains a ip = contains b ip"
  using ipnet_string_inj [of a b] by (simp add: contains_def)

lemma hex_bytes_hex: "c \<in> set (hex_bytes m) \<Longrightarrow> is_hex c"
  by (auto simp: hex_bytes_def hex_pair_def byte_below less_mult_imp_div_less intro!: digit_char_hex)

lemma ipnet_string_free: "CHR '';'' \<notin> set (ipnet_string n)"
proof (cases rule: network_cases [of n])
  case nil
  then show ?thesis by (simp add: ipnet_string_def)
next
  case (net nn m)
  have "CHR '';'' \<notin> set (hex_bytes m)"
    using hex_bytes_hex [of "CHR '';''" m] hex_not [of "CHR '';''"] by auto
  then have "CHR '';'' \<notin> set (mask_text m)"
    by (auto simp: mask_text_def mask_string_def dec_string_def based_string_free split: option.split)
  moreover have "CHR '';'' \<notin> set (ip_string nn)"
    using ip_string_chars [OF net(2)] addr_char_not by blast
  ultimately show ?thesis by (simp add: ipnet_string_net [OF net])
qed

lemma head_unique:
  "c \<notin> set x \<Longrightarrow> c \<notin> set y \<Longrightarrow> x @ c # r = y @ c # t \<Longrightarrow> x = y \<and> r = (t :: string)"
  by (metis cut_char_to option.inject prod.inject)

definition cidr_lines :: "string list \<Rightarrow> string" where
  "cidr_lines cs = concat (map (\<lambda>c. ''cidr='' @ c @ '';'') cs)"

lemma cidr_lines_simps:
  "cidr_lines [] = []" "cidr_lines (c # cs) = ''cidr='' @ c @ CHR '';'' # cidr_lines cs"
  by (simp_all add: cidr_lines_def)

lemma cidr_lines_inj:
  "\<forall>c \<in> set xs. CHR '';'' \<notin> set c \<Longrightarrow> \<forall>c \<in> set ys. CHR '';'' \<notin> set c \<Longrightarrow>
     cidr_lines xs = cidr_lines ys \<Longrightarrow> xs = ys"
proof (induction xs arbitrary: ys)
  case Nil
  then show ?case by (cases ys) (simp_all add: cidr_lines_simps)
next
  case (Cons x xs)
  then obtain y zs where y: "ys = y # zs" by (cases ys) (simp_all add: cidr_lines_simps)
  with Cons.prems(3) have "x @ CHR '';'' # cidr_lines xs = y @ CHR '';'' # cidr_lines zs"
    by (simp add: cidr_lines_simps)
  from head_unique [OF _ _ this] Cons.prems(1,2) y
  have e: "x = y" "cidr_lines xs = cidr_lines zs" by simp_all
  have "xs = zs" by (rule Cons.IH [OF _ _ e(2)]) (use Cons.prems(1,2) y in auto)
  with e y show ?case by simp
qed

lemma allows_strings:
  assumes "set (allowed_cidr_strings p) = set (allowed_cidr_strings q)"
  shows "allows p ip = allows q ip"
proof -
  have mem: "s \<in> set (allowed_cidr_strings p) \<longleftrightarrow> (\<exists>n. Some n \<in> set (allowed_cidrs p) \<and> s = ipnet_string n)"
    for s p by (force simp: allowed_cidr_strings_def)
  have "allows q ip" if "allows p ip" "set (allowed_cidr_strings p) \<subseteq> set (allowed_cidr_strings q)" for p q
    using that contains_same_text unfolding allows_iff subset_iff mem by metis
  with assms show ?thesis by blast
qed

lemma bool_string_inj: "bool_string a @ x = bool_string b @ y \<Longrightarrow> a = b \<and> x = y"
  by (cases a; cases b) (simp_all add: bool_string_def)

lemma same_text_same_policy:
  assumes "fingerprint_text (Some p) = fingerprint_text (Some q)"
    and "CHR '';'' \<notin> set (resolver_identity (policy_resolver p))"
    and "CHR '';'' \<notin> set (resolver_identity (policy_resolver q))"
  shows "(check_ip (Some p) ip = None \<longleftrightarrow> check_ip (Some q) ip = None)
    \<and> trust_proxy_resolution p = trust_proxy_resolution q
    \<and> resolver_identity (policy_resolver p) = resolver_identity (policy_resolver q)"
proof -
  let ?l = "\<lambda>p. cidr_lines (sort (allowed_cidr_strings p))"
  have b: "bool_string (allow_private p) @ '';trustProxyResolution=''
      @ bool_string (trust_proxy_resolution p) @ '';resolver='' @ resolver_identity (policy_resolver p)
      @ CHR '';'' # ?l p =
    bool_string (allow_private q) @ '';trustProxyResolution=''
      @ bool_string (trust_proxy_resolution q) @ '';resolver='' @ resolver_identity (policy_resolver q)
      @ CHR '';'' # ?l q"
    using assms(1) by (simp add: fingerprint_text_def cidr_lines_def)
  from bool_string_inj [OF b] have a: "allow_private p = allow_private q"
    and r: "bool_string (trust_proxy_resolution p) @ '';resolver='' @ resolver_identity (policy_resolver p)
      @ CHR '';'' # ?l p =
    bool_string (trust_proxy_resolution q) @ '';resolver='' @ resolver_identity (policy_resolver q)
      @ CHR '';'' # ?l q"
    by auto
  from bool_string_inj [OF r] have t: "trust_proxy_resolution p = trust_proxy_resolution q"
    and r': "resolver_identity (policy_resolver p) @ CHR '';'' # ?l p =
      resolver_identity (policy_resolver q) @ CHR '';'' # ?l q"
    by auto
  from head_unique [OF assms(2,3) r'] have i: "resolver_identity (policy_resolver p) =
      resolver_identity (policy_resolver q)" and l: "?l p = ?l q" by auto
  have "sort (allowed_cidr_strings p) = sort (allowed_cidr_strings q)"
    by (rule cidr_lines_inj [OF _ _ l]) (auto simp: allowed_cidr_strings_def ipnet_string_free)
  then have "allows p ip' = allows q ip'" for ip'
    using allows_strings [of p q] by (metis set_sort)
  with a t i show ?thesis
    by (simp add: check_ip_permitted effective_policy_def permitted_exact)
qed

text \<open>
  Two policies with the same digested text decide every address alike, treat proxy resolution
  alike and use resolvers of one identity, provided the identities contain no semicolon.
\<close>

lemma fingerprint_separates:
  assumes "fingerprint_text (Some p) = fingerprint_text (Some q)"
    and "CHR '';'' \<notin> set (resolver_identity (policy_resolver p))"
    and "CHR '';'' \<notin> set (resolver_identity (policy_resolver q))"
  shows "(check_ip (Some p) ip = None \<longleftrightarrow> check_ip (Some q) ip = None)
    \<and> trust_proxy_resolution p = trust_proxy_resolution q
    \<and> resolver_identity (policy_resolver p) = resolver_identity (policy_resolver q)"
  by (rule same_text_same_policy [OF assms])

definition example_policy :: "ipnet option list \<Rightarrow> ip_policy" where
  "example_policy ns = default_ip_policy\<lparr>allowed_cidrs := ns\<rparr>"

lemma fingerprint_separates_witness:
  "check_ip (Some (example_policy [Some (v4net 192 168 0 0 255 255 0 0), None,
      Some \<lparr>net_ip = ipv4 10 0 0 0, net_mask = [255, 0, 0, 0]\<rparr>])) [10, 0, 0, 1] = None"
proof -
  let ?p = "example_policy [Some (v4net 10 0 0 0 255 0 0 0), Some (v4net 192 168 0 0 255 255 0 0)]"
  let ?q = "example_policy [Some (v4net 192 168 0 0 255 255 0 0), None,
      Some \<lparr>net_ip = ipv4 10 0 0 0, net_mask = [255, 0, 0, 0]\<rparr>]"
  have "fingerprint_text (Some ?p) = fingerprint_text (Some ?q)" by code_simp
  moreover have "CHR '';'' \<notin> set (resolver_identity (policy_resolver ?p))"
    "CHR '';'' \<notin> set (resolver_identity (policy_resolver ?q))" by code_simp+
  moreover have "check_ip (Some ?p) [10, 0, 0, 1] = None" by code_simp
  ultimately show ?thesis using fingerprint_separates [of ?p ?q "[10, 0, 0, 1]"] by blast
qed

text \<open>
  The order in which a policy lists its blocks does not change its fingerprint.
\<close>

lemma fingerprint_order:
  assumes "mset (allowed_cidrs p) = mset (allowed_cidrs q)"
    and "allow_private p = allow_private q" "trust_proxy_resolution p = trust_proxy_resolution q"
    and "policy_resolver p = policy_resolver q"
  shows "fingerprint sha_hex (Some p) = fingerprint sha_hex (Some q)"
proof -
  have "mset (allowed_cidr_strings p) = mset (allowed_cidr_strings q)"
    using assms(1) by (simp add: allowed_cidr_strings_def)
  then have "sort (allowed_cidr_strings p) = sort (allowed_cidr_strings q)"
    by (metis mset_sort properties_for_sort sorted_sort)
  with assms(2-4) show ?thesis by (simp add: fingerprint_def fingerprint_text_def)
qed

lemma fingerprint_order_witness:
  "fingerprint id (Some (example_policy [None, Some (v4net 10 0 0 0 255 0 0 0)])) =
   fingerprint id (Some (example_policy [Some (v4net 10 0 0 0 255 0 0 0), None]))"
  by (rule fingerprint_order) (simp_all add: example_policy_def)

end
