(* ===== verification/Defaults.thy ===== *)
theory Defaults
  imports GoStrings
begin

text \<open>
  The default values and the paths of \<open>defaults.go\<close>. \<open>filepath.Join\<close> and
  \<open>filepath.Clean\<close> are modelled as they work on Unix; the answers of the operating system about the
  user's directories are parameters.
\<close>

section \<open>Constants\<close>

definition default_timeout :: duration where [simp]: "default_timeout = 30 * second"
definition default_retry_max :: int where [simp]: "default_retry_max = 3"
definition default_retry_wait :: duration where [simp]: "default_retry_wait = 1 * second"
definition default_retry_max_wait :: duration where [simp]: "default_retry_max_wait = 30 * second"
definition default_cache_ttl :: duration where [simp]: "default_cache_ttl = 10 * minute"
definition default_cache_key_prefix :: string where [simp]: "default_cache_key_prefix = ''httpc:''"
definition default_max_response_body_size :: int where
  [simp]: "default_max_response_body_size = 100 * 1024 * 1024"
definition default_max_cache_file_size :: int where
  [simp]: "default_max_cache_file_size = 10 * 1024 * 1024"
definition default_memory_cache_size :: int where [simp]: "default_memory_cache_size = 1000"
definition default_circuit_breaker_max_failures :: int where
  [simp]: "default_circuit_breaker_max_failures = 5"
definition default_circuit_breaker_open_timeout :: duration where
  [simp]: "default_circuit_breaker_open_timeout = 30 * second"
definition default_circuit_breaker_half_open_requests :: int where
  [simp]: "default_circuit_breaker_half_open_requests = 1"
definition default_max_redirects :: int where [simp]: "default_max_redirects = 10"
definition http_cache_dir_name :: string where [simp]: "http_cache_dir_name = ''http-cache''"

section \<open>Paths\<close>

text \<open>
  \<open>filepath.Clean\<close> goes through the elements with the ones kept so far, the last first: a
  ".." drops the element before it, at the root of a rooted path nothing, and stays where there is
  nothing to drop.
\<close>

definition clean_step :: "bool \<Rightarrow> string \<Rightarrow> string list \<Rightarrow> string list" where
  "clean_step rooted e st =
     (if e = [] \<or> e = ''.'' then st
      else if e = ''..''
      then (case st of
          [] \<Rightarrow> if rooted then [] else [e]
        | x # xs \<Rightarrow> if x = ''..'' then e # st else xs)
      else e # st)"

definition clean_path :: "string \<Rightarrow> string" where
  "clean_path p =
     (if p = [] then ''.''
      else
        (let rooted = (hd p = CHR ''/'');
             out = join_char (CHR ''/'') (rev (fold (clean_step rooted) (split_char (CHR ''/'') p) []))
         in if rooted then CHR ''/'' # out else if out = [] then ''.'' else out))"

definition path_join :: "string list \<Rightarrow> string" where
  "path_join es =
     (case dropWhile (\<lambda>e. e = []) es of
        [] \<Rightarrow> []
      | fs \<Rightarrow> clean_path (join_char (CHR ''/'') fs))"

text \<open>\<open>user_cache_dir\<close> and \<open>temp_dir\<close> are what \<open>os\<close> answers.\<close>

definition default_cache_dir :: "go_err + string \<Rightarrow> string \<Rightarrow> string" where
  "default_cache_dir user_cache_dir temp_dir =
     (let cache_dir = (case user_cache_dir of Inl _ \<Rightarrow> temp_dir | Inr d \<Rightarrow> d)
      in path_join [cache_dir, ''httpc'', http_cache_dir_name])"

definition expand_home :: "go_err + string \<Rightarrow> string \<Rightarrow> go_err + string" where
  "expand_home user_home_dir path =
     (if length path = 0 \<or> hd path \<noteq> CHR ''~'' then Inr path
      else
        (case user_home_dir of
           Inl e \<Rightarrow> Inl e
         | Inr home \<Rightarrow>
             (let rest = tl path;
                  rest = (if length rest > 0 \<and> hd rest = CHR ''/'' then tl rest else rest)
              in Inr (path_join [home, rest]))))"

section \<open>Clean paths\<close>

text \<open>
  The elements a rooted path keeps are names, neither empty nor a dot element, so cleaning it
  again changes nothing, and expanding it either.
\<close>

definition plain_element :: "string \<Rightarrow> bool" where
  "plain_element e \<longleftrightarrow> e \<noteq> [] \<and> e \<noteq> ''.'' \<and> e \<noteq> ''..'' \<and> CHR ''/'' \<notin> set e"

lemma clean_step_plain:
  "list_all plain_element st \<Longrightarrow> CHR ''/'' \<notin> set e \<Longrightarrow> list_all plain_element (clean_step True e st)"
  by (cases st) (auto simp: clean_step_def plain_element_def)

lemma clean_fold_plain:
  "list_all plain_element st \<Longrightarrow> \<forall>e\<in>set es. CHR ''/'' \<notin> set e \<Longrightarrow>
     list_all plain_element (fold (clean_step True) es st)"
  by (induction es arbitrary: st) (auto intro: clean_step_plain)

lemma clean_fold_id:
  "list_all plain_element es \<Longrightarrow> fold (clean_step r) es st = rev es @ st"
  by (induction es arbitrary: st) (auto simp: clean_step_def plain_element_def)

lemma clean_rooted:
  assumes "p \<noteq> []" "hd p = CHR ''/''"
  obtains es where "list_all plain_element es" "clean_path p = CHR ''/'' # join_char (CHR ''/'') es"
proof
  let ?es = "rev (fold (clean_step True) (split_char (CHR ''/'') p) [])"
  show "list_all plain_element ?es"
    using clean_fold_plain [of "[]" "split_char (CHR ''/'') p"] split_char_no_sep
    by (auto simp: list_all_iff)
  show "clean_path p = CHR ''/'' # join_char (CHR ''/'') ?es"
    using assms by (simp add: clean_path_def)
qed

lemma clean_path_elements:
  assumes "list_all plain_element es"
  shows "clean_path (CHR ''/'' # join_char (CHR ''/'') es) = CHR ''/'' # join_char (CHR ''/'') es"
proof (cases "es = []")
  case True
  then show ?thesis by (simp add: clean_path_def clean_step_def)
next
  case False
  have "split_char (CHR ''/'') (join_char (CHR ''/'') es) = es"
    using assms False by (intro split_join) (auto simp: plain_element_def list_all_iff)
  then have "split_char (CHR ''/'') (CHR ''/'' # join_char (CHR ''/'') es) = [] # es" by simp
  then have "fold (clean_step True) (split_char (CHR ''/'') (CHR ''/'' # join_char (CHR ''/'') es)) [] = rev es"
    using clean_fold_id [OF assms, of True "[]"] by (simp add: clean_step_def)
  then show ?thesis by (simp add: clean_path_def)
qed

lemma clean_path_idem: "p \<noteq> [] \<Longrightarrow> hd p = CHR ''/'' \<Longrightarrow> clean_path (clean_path p) = clean_path p"
  by (metis clean_rooted clean_path_elements)

lemma expand_home_again:
  assumes "expand_home (Inr home) path = Inr p" "home \<noteq> []" "hd home = CHR ''/''"
  shows "expand_home h p = Inr p"
proof (cases "length path = 0 \<or> hd path \<noteq> CHR ''~''")
  case True
  with assms(1) show ?thesis by (auto simp: expand_home_def)
next
  case False
  then obtain rest where p: "p = clean_path (join_char (CHR ''/'') [home, rest])"
    using assms by (auto simp: expand_home_def path_join_def Let_def)
  let ?q = "join_char (CHR ''/'') [home, rest]"
  have "?q \<noteq> []" "hd ?q = CHR ''/''" using assms(2,3) by auto
  with p obtain es where "p = CHR ''/'' # join_char (CHR ''/'') es" by (metis clean_rooted)
  then show ?thesis by (simp add: expand_home_def)
qed

lemma default_cache_dir_rooted:
  assumes "user_cache_dir = Inr d" "d \<noteq> []" "hd d = CHR ''/''"
  shows "hd (default_cache_dir user_cache_dir t) = CHR ''/''"
proof -
  let ?q = "join_char (CHR ''/'') [d, ''httpc'', ''http-cache'']"
  have "?q \<noteq> []" "hd ?q = CHR ''/''" using assms(2,3) by auto
  moreover have "default_cache_dir user_cache_dir t = clean_path ?q"
    using assms(1,2) by (simp add: default_cache_dir_def path_join_def)
  ultimately show ?thesis by (metis clean_rooted list.sel(1))
qed

end
