(* ===== verification/CircuitBreaker.thy ===== *)
theory CircuitBreaker
  imports Defaults GoErrors "HOL-Library.Sublist"
begin

text \<open>
  The circuit breaker of \<open>circuitbreaker.go\<close>. Each critical section is a function of the
  breaker and the clock readings it takes; the gauge call that follows the unlock is separate, so
  that the interleavings of several goroutines can be stated as sequences of steps.
\<close>

section \<open>State\<close>

datatype breaker_state = StateClosed | StateOpen | StateHalfOpen

text \<open>The constants are numbered by \<open>iota\<close>.\<close>

fun state_number :: "breaker_state \<Rightarrow> int" where
  "state_number StateClosed = 0"
| "state_number StateOpen = 1"
| "state_number StateHalfOpen = 2"

instantiation breaker_state :: linorder
begin

definition less_eq_breaker_state :: "breaker_state \<Rightarrow> breaker_state \<Rightarrow> bool" where
  "less_eq_breaker_state s t \<longleftrightarrow> state_number s \<le> state_number t"

definition less_breaker_state :: "breaker_state \<Rightarrow> breaker_state \<Rightarrow> bool" where
  "less_breaker_state s t \<longleftrightarrow> state_number s < state_number t"

instance
proof
  fix s t :: breaker_state
  show "s \<le> t \<Longrightarrow> t \<le> s \<Longrightarrow> s = t"
    by (cases s; cases t) (simp_all add: less_eq_breaker_state_def)
qed (auto simp: less_eq_breaker_state_def less_breaker_state_def)

end

record breaker_config =
  max_failures :: int
  open_timeout :: duration
  half_open_max_requests :: int

definition default_circuit_breaker_config :: breaker_config where
  "default_circuit_breaker_config =
     \<lparr>max_failures = default_circuit_breaker_max_failures,
      open_timeout = default_circuit_breaker_open_timeout,
      half_open_max_requests = default_circuit_breaker_half_open_requests\<rparr>"

record host_breaker =
  state :: breaker_state
  failures :: int
  last_state_change :: instant
  half_open_success :: int
  half_open_allowed :: int

text \<open>\<open>gauge_calls\<close> are the calls of \<open>SetCircuitBreakerState\<close>, oldest first.\<close>

record circuit_breaker =
  cb_config :: breaker_config
  breakers :: "string \<rightharpoonup> host_breaker"
  gauge_calls :: "(string \<times> breaker_state) list"

definition new_circuit_breaker :: "breaker_config option \<Rightarrow> circuit_breaker" where
  "new_circuit_breaker c =
     \<lparr>cb_config = (case c of None \<Rightarrow> default_circuit_breaker_config | Some c \<Rightarrow> c),
      breakers = Map.empty, gauge_calls = []\<rparr>"

definition set_gauge :: "string \<Rightarrow> breaker_state \<Rightarrow> circuit_breaker \<Rightarrow> circuit_breaker" where
  "set_gauge h s cb = cb\<lparr>gauge_calls := gauge_calls cb @ [(h, s)]\<rparr>"

definition put_breaker :: "string \<Rightarrow> host_breaker \<Rightarrow> circuit_breaker \<Rightarrow> circuit_breaker" where
  "put_breaker h hb cb = cb\<lparr>breakers := (breakers cb)(h \<mapsto> hb)\<rparr>"

definition fresh_breaker :: "instant \<Rightarrow> host_breaker" where
  "fresh_breaker now =
     \<lparr>state = StateClosed, failures = 0, last_state_change = now, half_open_success = 0,
      half_open_allowed = 0\<rparr>"

section \<open>Operations\<close>

definition get_or_create_breaker ::
    "string \<Rightarrow> instant \<Rightarrow> circuit_breaker \<Rightarrow> host_breaker \<times> circuit_breaker" where
  "get_or_create_breaker h now cb =
     (case breakers cb h of
        Some hb \<Rightarrow> (hb, cb)
      | None \<Rightarrow> (fresh_breaker now, set_gauge h StateClosed (put_breaker h (fresh_breaker now) cb)))"

text \<open>
  The critical sections. Each returns the state it leaves for the gauge call after the unlock,
  if any. In \<open>allow\<close> the first clock reading is \<open>time.Since\<close>, the second the new
  \<open>lastStateChange\<close>.
\<close>

definition allow_fast_path :: "string \<Rightarrow> circuit_breaker \<Rightarrow> bool" where
  "allow_fast_path h cb =
     (case breakers cb h of Some hb \<Rightarrow> state hb = StateClosed | None \<Rightarrow> False)"

definition allow_locked ::
    "string \<Rightarrow> instant \<Rightarrow> instant \<Rightarrow> circuit_breaker
      \<Rightarrow> go_err option \<times> breaker_state option \<times> circuit_breaker" where
  "allow_locked h now now' cb0 =
     (let (hb, cb) = get_or_create_breaker h now cb0
      in case state hb of
           StateOpen \<Rightarrow>
             if now - last_state_change hb \<ge> open_timeout (cb_config cb)
             then (None, Some StateHalfOpen,
                   put_breaker h (hb\<lparr>state := StateHalfOpen, last_state_change := now',
                                     half_open_allowed := 1\<rparr>) cb)
             else (Some (err_value ErrCircuitBreakerOpen), None, cb)
         | StateHalfOpen \<Rightarrow>
             if half_open_allowed hb \<ge> half_open_max_requests (cb_config cb)
             then (Some (err_value ErrCircuitBreakerOpen), None, cb)
             else (None, None, put_breaker h (hb\<lparr>half_open_allowed := half_open_allowed hb + 1\<rparr>) cb)
         | StateClosed \<Rightarrow> (None, None, cb))"

definition record_success_locked ::
    "string \<Rightarrow> instant \<Rightarrow> circuit_breaker \<Rightarrow> breaker_state option \<times> circuit_breaker" where
  "record_success_locked h now cb0 =
     (let (hb, cb) = get_or_create_breaker h now cb0
      in case state hb of
           StateHalfOpen \<Rightarrow>
             (let hb = hb\<lparr>half_open_success := half_open_success hb + 1\<rparr>
              in if half_open_success hb \<ge> half_open_max_requests (cb_config cb)
                 then (Some StateClosed,
                       put_breaker h (hb\<lparr>state := StateClosed, last_state_change := now,
                         failures := 0, half_open_success := 0, half_open_allowed := 0\<rparr>) cb)
                 else (None, put_breaker h hb cb))
         | StateClosed \<Rightarrow> (None, put_breaker h (hb\<lparr>failures := 0\<rparr>) cb)
         | StateOpen \<Rightarrow> (None, cb))"

definition record_failure_locked ::
    "string \<Rightarrow> instant \<Rightarrow> circuit_breaker \<Rightarrow> breaker_state option \<times> circuit_breaker" where
  "record_failure_locked h now cb0 =
     (let (hb, cb) = get_or_create_breaker h now cb0
      in case state hb of
           StateHalfOpen \<Rightarrow>
             (Some StateOpen,
              put_breaker h (hb\<lparr>state := StateOpen, last_state_change := now,
                half_open_success := 0, half_open_allowed := 0\<rparr>) cb)
         | StateClosed \<Rightarrow>
             (let hb = hb\<lparr>failures := failures hb + 1\<rparr>
              in if failures hb \<ge> max_failures (cb_config cb)
                 then (Some StateOpen,
                       put_breaker h (hb\<lparr>state := StateOpen, last_state_change := now\<rparr>) cb)
                 else (None, put_breaker h hb cb))
         | StateOpen \<Rightarrow> (None, cb))"

text \<open>The operations, run without interference: the gauge call follows the critical section.\<close>

definition publish :: "string \<Rightarrow> breaker_state option \<Rightarrow> circuit_breaker \<Rightarrow> circuit_breaker" where
  "publish h ev cb = (case ev of None \<Rightarrow> cb | Some s \<Rightarrow> set_gauge h s cb)"

definition allow ::
    "string \<Rightarrow> instant \<Rightarrow> instant \<Rightarrow> circuit_breaker \<Rightarrow> go_err option \<times> circuit_breaker" where
  "allow h now now' cb =
     (if allow_fast_path h cb then (None, cb)
      else (case allow_locked h now now' cb of (r, ev, cb') \<Rightarrow> (r, publish h ev cb')))"

definition record_success :: "string \<Rightarrow> instant \<Rightarrow> circuit_breaker \<Rightarrow> circuit_breaker" where
  "record_success h now cb =
     (case record_success_locked h now cb of (ev, cb') \<Rightarrow> publish h ev cb')"

definition record_failure :: "string \<Rightarrow> instant \<Rightarrow> circuit_breaker \<Rightarrow> circuit_breaker" where
  "record_failure h now cb =
     (case record_failure_locked h now cb of (ev, cb') \<Rightarrow> publish h ev cb')"

definition get_state :: "string \<Rightarrow> circuit_breaker \<Rightarrow> breaker_state" where
  "get_state h cb = (case breakers cb h of None \<Rightarrow> StateClosed | Some hb \<Rightarrow> state hb)"

section \<open>Specification\<close>

text \<open>
  The circuit of one host as an abstract machine: closed with a count of consecutive failures,
  open since an instant, or half-open with counts of successes and of admitted requests.
\<close>

datatype circuit = Closed int | Open instant | HalfOpen int int

fun spec_allow :: "breaker_config \<Rightarrow> instant \<Rightarrow> circuit \<Rightarrow> bool \<times> circuit" where
  "spec_allow cfg now (Closed n) = (True, Closed n)"
| "spec_allow cfg now (Open since) =
     (if now - since \<ge> open_timeout cfg then (True, HalfOpen 0 1) else (False, Open since))"
| "spec_allow cfg now (HalfOpen s a) =
     (if a < half_open_max_requests cfg then (True, HalfOpen s (a + 1)) else (False, HalfOpen s a))"

fun spec_success :: "breaker_config \<Rightarrow> circuit \<Rightarrow> circuit" where
  "spec_success cfg (Closed n) = Closed 0"
| "spec_success cfg (Open since) = Open since"
| "spec_success cfg (HalfOpen s a) =
     (if s + 1 \<ge> half_open_max_requests cfg then Closed 0 else HalfOpen (s + 1) a)"

fun spec_failure :: "breaker_config \<Rightarrow> instant \<Rightarrow> circuit \<Rightarrow> circuit" where
  "spec_failure cfg now (Closed n) = (if n + 1 \<ge> max_failures cfg then Open now else Closed (n + 1))"
| "spec_failure cfg now (Open since) = Open since"
| "spec_failure cfg now (HalfOpen s a) = Open now"

definition circuit_of_breaker :: "host_breaker \<Rightarrow> circuit" where
  "circuit_of_breaker hb =
     (case state hb of
        StateClosed \<Rightarrow> Closed (failures hb)
      | StateOpen \<Rightarrow> Open (last_state_change hb)
      | StateHalfOpen \<Rightarrow> HalfOpen (half_open_success hb) (half_open_allowed hb))"

definition circuit_of :: "string \<Rightarrow> circuit_breaker \<Rightarrow> circuit" where
  "circuit_of h cb = (case breakers cb h of None \<Rightarrow> Closed 0 | Some hb \<Rightarrow> circuit_of_breaker hb)"

text \<open>
  The counters of the half-open state are zero elsewhere, and those in use are within the limits. An
  open or half-open breaker still has the failure count that opened it.
\<close>

definition host_ok :: "breaker_config \<Rightarrow> host_breaker \<Rightarrow> bool" where
  "host_ok cfg hb \<longleftrightarrow>
     (case state hb of
        StateClosed \<Rightarrow> half_open_success hb = 0 \<and> half_open_allowed hb = 0
          \<and> 0 \<le> failures hb \<and> (failures hb = 0 \<or> failures hb < max_failures cfg)
      | StateOpen \<Rightarrow> half_open_success hb = 0 \<and> half_open_allowed hb = 0
          \<and> failures hb = max 1 (max_failures cfg)
      | StateHalfOpen \<Rightarrow> failures hb = max 1 (max_failures cfg) \<and> 0 \<le> half_open_success hb
          \<and> (half_open_success hb = 0 \<or> half_open_success hb < half_open_max_requests cfg)
          \<and> 1 \<le> half_open_allowed hb
          \<and> (half_open_allowed hb = 1 \<or> half_open_allowed hb \<le> half_open_max_requests cfg))"

definition breaker_ok :: "circuit_breaker \<Rightarrow> bool" where
  "breaker_ok cb \<longleftrightarrow> (\<forall>hb \<in> ran (breakers cb). host_ok (cb_config cb) hb)"

section \<open>Steps\<close>

text \<open>One critical section or one gauge call; the pending gauge calls of all goroutines.\<close>

datatype breaker_event =
    Allow string instant instant
  | Success string instant
  | Failure string instant

fun locked_step ::
    "breaker_event \<Rightarrow> circuit_breaker \<Rightarrow> (string \<times> breaker_state) list \<times> circuit_breaker" where
  "locked_step (Allow h t t') cb =
     (case allow_locked h t t' cb of (_, ev, cb') \<Rightarrow> (case ev of None \<Rightarrow> [] | Some s \<Rightarrow> [(h, s)], cb'))"
| "locked_step (Success h t) cb =
     (case record_success_locked h t cb of (ev, cb') \<Rightarrow> (case ev of None \<Rightarrow> [] | Some s \<Rightarrow> [(h, s)], cb'))"
| "locked_step (Failure h t) cb =
     (case record_failure_locked h t cb of (ev, cb') \<Rightarrow> (case ev of None \<Rightarrow> [] | Some s \<Rightarrow> [(h, s)], cb'))"

type_synonym breaker_system = "circuit_breaker \<times> (string \<times> breaker_state) list"

inductive breaker_trans :: "breaker_system \<Rightarrow> breaker_system \<Rightarrow> bool" where
  lock: "locked_step e cb = (new, cb') \<Longrightarrow> breaker_trans (cb, pending) (cb', pending @ new)"
| gauge: "p \<in> set pending \<Longrightarrow>
     breaker_trans (cb, pending) (set_gauge (fst p) (snd p) cb, remove1 p pending)"

inductive_cases breaker_transE: "breaker_trans (cb, pending) (cb', pending')"

definition breaker_start :: "breaker_system \<Rightarrow> bool" where
  "breaker_start s \<longleftrightarrow> (\<exists>c. s = (new_circuit_breaker c, []))"

text \<open>The operations in sequence, with the answers of \<open>allow\<close>.\<close>

fun step ::
    "breaker_event \<Rightarrow> circuit_breaker \<Rightarrow> (string \<times> go_err option) list \<times> circuit_breaker" where
  "step (Allow h t t') cb = (case allow h t t' cb of (r, cb') \<Rightarrow> ([(h, r)], cb'))"
| "step (Success h t) cb = ([], record_success h t cb)"
| "step (Failure h t) cb = ([], record_failure h t cb)"

fun run ::
    "breaker_event list \<Rightarrow> circuit_breaker \<Rightarrow> (string \<times> go_err option) list \<times> circuit_breaker" where
  "run [] cb = ([], cb)"
| "run (e # es) cb = (case step e cb of (rs, cb') \<Rightarrow> (case run es cb' of (rs', cb'') \<Rightarrow> (rs @ rs', cb'')))"

text \<open>The abstract machine on the events of its host; the answers of its \<open>allow\<close> calls.\<close>

fun event_host :: "breaker_event \<Rightarrow> string" where
  "event_host (Allow h t t') = h"
| "event_host (Success h t) = h"
| "event_host (Failure h t) = h"

fun event_time :: "breaker_event \<Rightarrow> instant" where
  "event_time (Allow h t t') = t"
| "event_time (Success h t) = t"
| "event_time (Failure h t) = t"

fun is_allow :: "breaker_event \<Rightarrow> bool" where
  "is_allow (Allow h t t') = True"
| "is_allow _ = False"

fun spec_step :: "breaker_config \<Rightarrow> breaker_event \<Rightarrow> circuit \<Rightarrow> bool list \<times> circuit" where
  "spec_step cfg (Allow h t t') c = (case spec_allow cfg t c of (b, c') \<Rightarrow> ([b], c'))"
| "spec_step cfg (Success h t) c = ([], spec_success cfg c)"
| "spec_step cfg (Failure h t) c = ([], spec_failure cfg t c)"

fun spec_run :: "breaker_config \<Rightarrow> breaker_event list \<Rightarrow> circuit \<Rightarrow> bool list \<times> circuit" where
  "spec_run cfg [] c = ([], c)"
| "spec_run cfg (e # es) c =
     (case spec_step cfg e c of (bs, c') \<Rightarrow>
        (case spec_run cfg es c' of (bs', c'') \<Rightarrow> (bs @ bs', c'')))"

definition events_of :: "string \<Rightarrow> breaker_event list \<Rightarrow> breaker_event list" where
  "events_of h es = filter (\<lambda>e. event_host e = h) es"

definition answers_of :: "string \<Rightarrow> (string \<times> go_err option) list \<Rightarrow> bool list" where
  "answers_of h rs = map (\<lambda>r. snd r = None) (filter (\<lambda>r. fst r = h) rs)"

section \<open>Lemmas\<close>

lemma put_breaker_simps [breaker_simps]:
  "breakers (put_breaker h hb cb) = (breakers cb)(h \<mapsto> hb)"
  "cb_config (put_breaker h hb cb) = cb_config cb"
  "gauge_calls (put_breaker h hb cb) = gauge_calls cb"
  by (simp_all add: put_breaker_def)

lemma set_gauge_simps [breaker_simps]:
  "breakers (set_gauge h s cb) = breakers cb"
  "cb_config (set_gauge h s cb) = cb_config cb"
  "gauge_calls (set_gauge h s cb) = gauge_calls cb @ [(h, s)]"
  by (simp_all add: set_gauge_def)

lemma publish_simps [breaker_simps]:
  "breakers (publish h ev cb) = breakers cb"
  "cb_config (publish h ev cb) = cb_config cb"
  "gauge_calls (publish h ev cb) = gauge_calls cb @ (case ev of None \<Rightarrow> [] | Some s \<Rightarrow> [(h, s)])"
  by (simp_all add: publish_def breaker_simps split: option.split)

lemma get_or_create_cases:
  obtains (old) hb where "breakers cb h = Some hb" "get_or_create_breaker h now cb = (hb, cb)"
  | (new) "breakers cb h = None"
      "get_or_create_breaker h now cb =
         (fresh_breaker now, set_gauge h StateClosed (put_breaker h (fresh_breaker now) cb))"
  by (cases "breakers cb h") (auto simp: get_or_create_breaker_def)

lemma fresh_breaker_ok: "host_ok cfg (fresh_breaker now)"
  by (simp add: host_ok_def fresh_breaker_def)

lemma fresh_circuit: "circuit_of_breaker (fresh_breaker now) = Closed 0"
  by (simp add: circuit_of_breaker_def fresh_breaker_def)

lemma get_or_create_circuit:
  assumes "get_or_create_breaker h now cb = (hb, cb')"
  shows "circuit_of k cb' = circuit_of k cb"
    and "circuit_of_breaker hb = circuit_of h cb"
    and "breakers cb' h = Some hb" and "cb_config cb' = cb_config cb"
    and "breaker_ok cb \<Longrightarrow> breaker_ok cb'"
    and "breaker_ok cb \<Longrightarrow> host_ok (cb_config cb) hb"
  using assms
  by (cases rule: get_or_create_cases [of cb h now];
      auto simp: circuit_of_def breaker_simps fresh_circuit fresh_breaker_ok breaker_ok_def ran_def)+

lemma put_breaker_circuit:
  "circuit_of k (put_breaker h hb cb) = (if k = h then circuit_of_breaker hb else circuit_of k cb)"
  by (simp add: circuit_of_def breaker_simps)

lemma put_breaker_ok:
  "breaker_ok cb \<Longrightarrow> host_ok (cb_config cb) hb \<Longrightarrow> breaker_ok (put_breaker h hb cb)"
  by (auto simp: breaker_ok_def breaker_simps ran_def)

lemma get_or_create_host:
  assumes "get_or_create_breaker h now cb = (hb, cb')"
  shows "circuit_of h cb' = circuit_of_breaker hb"
  using get_or_create_circuit [OF assms] by simp

lemmas locked_simps = circuit_of_breaker_def host_ok_def put_breaker_circuit breaker_simps Let_def

lemma allow_locked_spec:
  assumes "breaker_ok cb" and "allow_locked h t t' cb = (r, ev, cb')"
  shows "breaker_ok cb' \<and> cb_config cb' = cb_config cb
    \<and> spec_allow (cb_config cb) t (circuit_of h cb) = (r = None, circuit_of h cb')
    \<and> (k \<noteq> h \<longrightarrow> circuit_of k cb' = circuit_of k cb)"
proof -
  obtain hb cb1 where g: "get_or_create_breaker h t cb = (hb, cb1)" by fastforce
  note g' = get_or_create_circuit [OF g]
  have c: "circuit_of h cb = circuit_of_breaker hb" using g'(2) by simp
  show ?thesis
    using assms(2) g g'(1) [of k] g'(3-4) g'(5,6) [OF assms(1)] get_or_create_host [OF g] unfolding c
    by (auto simp: allow_locked_def locked_simps intro!: put_breaker_ok
        split: breaker_state.splits if_splits)
qed

lemma record_success_locked_spec:
  assumes "breaker_ok cb" and "record_success_locked h t cb = (ev, cb')"
  shows "breaker_ok cb' \<and> cb_config cb' = cb_config cb
    \<and> circuit_of h cb' = spec_success (cb_config cb) (circuit_of h cb)
    \<and> (k \<noteq> h \<longrightarrow> circuit_of k cb' = circuit_of k cb)"
proof -
  obtain hb cb1 where g: "get_or_create_breaker h t cb = (hb, cb1)" by fastforce
  note g' = get_or_create_circuit [OF g]
  have c: "circuit_of h cb = circuit_of_breaker hb" using g'(2) by simp
  show ?thesis
    using assms(2) g g'(1) [of k] g'(3-4) g'(5,6) [OF assms(1)] get_or_create_host [OF g] unfolding c
    by (auto simp: record_success_locked_def locked_simps intro!: put_breaker_ok
        split: breaker_state.splits if_splits)
qed

lemma record_failure_locked_spec:
  assumes "breaker_ok cb" and "record_failure_locked h t cb = (ev, cb')"
  shows "breaker_ok cb' \<and> cb_config cb' = cb_config cb
    \<and> circuit_of h cb' = spec_failure (cb_config cb) t (circuit_of h cb)
    \<and> (k \<noteq> h \<longrightarrow> circuit_of k cb' = circuit_of k cb)"
proof -
  obtain hb cb1 where g: "get_or_create_breaker h t cb = (hb, cb1)" by fastforce
  note g' = get_or_create_circuit [OF g]
  have c: "circuit_of h cb = circuit_of_breaker hb" using g'(2) by simp
  show ?thesis
    using assms(2) g g'(1) [of k] g'(3-4) g'(5,6) [OF assms(1)] get_or_create_host [OF g] unfolding c
    by (auto simp: record_failure_locked_def locked_simps intro!: put_breaker_ok
        split: breaker_state.splits if_splits)
qed

lemma publish_circuit [simp]:
  "circuit_of k (publish h ev cb) = circuit_of k cb"
  "circuit_of k (set_gauge h s cb) = circuit_of k cb"
  "breaker_ok (publish h ev cb) = breaker_ok cb"
  "breaker_ok (set_gauge h s cb) = breaker_ok cb"
  by (simp_all add: circuit_of_def breaker_ok_def breaker_simps)

lemma allow_fast_path_slow:
  "allow_fast_path h cb \<Longrightarrow> allow_locked h t t' cb = (None, None, cb)"
  by (auto simp: allow_fast_path_def allow_locked_def get_or_create_breaker_def split: option.splits)

lemma allow_slow_path:
  "allow h t t' cb = (case allow_locked h t t' cb of (r, ev, cb') \<Rightarrow> (r, publish h ev cb'))"
  by (simp add: allow_def allow_fast_path_slow publish_def)

lemma locked_step_spec:
  assumes "breaker_ok cb" and "locked_step e cb = (new, cb')"
  shows "breaker_ok cb' \<and> cb_config cb' = cb_config cb
    \<and> circuit_of k cb' =
        (if k = event_host e then snd (spec_step (cb_config cb) e (circuit_of k cb))
         else circuit_of k cb)"
proof (cases e)
  case (Allow h t t')
  with assms allow_locked_spec [of cb h t t' _ _ _ k] show ?thesis
    by (auto split: prod.splits)
next
  case (Success h t)
  with assms record_success_locked_spec [of cb h t _ _ k] show ?thesis
    by (auto split: prod.splits)
next
  case (Failure h t)
  with assms record_failure_locked_spec [of cb h t _ _ k] show ?thesis
    by (auto split: prod.splits)
qed

lemma step_locked: "snd (step e cb) = (case locked_step e cb of (new, cb') \<Rightarrow>
    (case new of [] \<Rightarrow> cb' | (h, s) # _ \<Rightarrow> set_gauge h s cb'))"
  by (cases e) (auto simp: allow_slow_path record_success_def record_failure_def publish_def
      split: prod.split option.split)

lemma step_spec:
  assumes "breaker_ok cb" and "step e cb = (rs, cb')"
  shows "breaker_ok cb' \<and> cb_config cb' = cb_config cb
    \<and> circuit_of k cb' =
        (if k = event_host e then snd (spec_step (cb_config cb) e (circuit_of k cb))
         else circuit_of k cb)
    \<and> answers_of k rs =
        (if k = event_host e then fst (spec_step (cb_config cb) e (circuit_of k cb)) else [])"
proof -
  obtain new cb1 where l: "locked_step e cb = (new, cb1)" by fastforce
  with assms(2) step_locked [of e cb]
  have "cb' = (case new of [] \<Rightarrow> cb1 | (h, s) # _ \<Rightarrow> set_gauge h s cb1)" by simp
  moreover have "answers_of k rs =
      (if k = event_host e then fst (spec_step (cb_config cb) e (circuit_of k cb)) else [])"
  proof (cases e)
    case (Allow h t t')
    with assms allow_locked_spec [of cb h t t'] show ?thesis
      by (auto simp: allow_slow_path answers_of_def split: prod.splits)
  qed (use assms(2) in \<open>auto simp: answers_of_def\<close>)
  ultimately show ?thesis
    using locked_step_spec [OF assms(1) l, of k]
    by (auto simp: breaker_simps split: list.splits prod.splits)
qed

lemma run_spec:
  assumes "breaker_ok cb" and "run es cb = (rs, cb')"
  shows "breaker_ok cb' \<and> cb_config cb' = cb_config cb
    \<and> (answers_of k rs, circuit_of k cb') =
        spec_run (cb_config cb) (events_of k es) (circuit_of k cb)"
  using assms
proof (induction es arbitrary: cb rs)
  case Nil
  then show ?case by (simp add: answers_of_def events_of_def)
next
  case (Cons e es)
  obtain rs1 cb1 where s: "step e cb = (rs1, cb1)" by fastforce
  obtain rs2 where r: "run es cb1 = (rs2, cb')" and rs: "rs = rs1 @ rs2"
    using Cons.prems(2) s by (auto split: prod.splits)
  have app: "answers_of k (rs1 @ rs2) = answers_of k rs1 @ answers_of k rs2"
    by (simp add: answers_of_def)
  from step_spec [OF Cons.prems(1) s, of k] Cons.IH [OF _ r] show ?case
    unfolding rs app by (auto simp: events_of_def answers_of_def split: prod.splits)
qed

lemma new_circuit_breaker_ok [simp]:
  "breaker_ok (new_circuit_breaker c)" "circuit_of h (new_circuit_breaker c) = Closed 0"
  by (simp_all add: breaker_ok_def new_circuit_breaker_def circuit_of_def)

interpretation bs: invariant_system breaker_start breaker_trans "\<lambda>s. breaker_ok (fst s)"
proof
  show "breaker_ok (fst s)" if "breaker_start s" for s
    using that by (auto simp: breaker_start_def)
  show "breaker_ok (fst t)" if "breaker_ok (fst s)" "breaker_trans s t" for s t
    using that(2,1) by (cases s; cases t) (auto elim!: breaker_transE dest: locked_step_spec)
qed

section \<open>Properties\<close>

text \<open>
  C8: After any sequence of operations on any hosts, the answers of \<open>allow\<close> for a
  host and the state of its breaker are those of the abstract circuit of that host run on that
  host's operations only.
\<close>

theorem breaker_refines_circuit:
  "case run es (new_circuit_breaker c) of (rs, cb) \<Rightarrow>
     (answers_of h rs, circuit_of h cb) =
       spec_run (cb_config (new_circuit_breaker c)) (events_of h es) (Closed 0)"
proof (cases "run es (new_circuit_breaker c)")
  case (Pair rs cb)
  with run_spec [OF _ Pair, of h] show ?thesis by simp
qed

text \<open>
  The read-locked fast path of \<open>allow\<close> gives the answer and the state the
  write-locked path gives.
\<close>

lemma allow_fast_path_sound:
  "allow h t t' cb = (case allow_locked h t t' cb of (r, ev, cb') \<Rightarrow> (r, publish h ev cb'))"
  by (rule allow_slow_path)

text \<open>Runs of the abstract machine that keep its state.\<close>

lemma spec_run_append:
  "spec_run cfg (es @ fs) c =
     (case spec_run cfg es c of (bs, c') \<Rightarrow> (case spec_run cfg fs c' of (bs', c'') \<Rightarrow> (bs @ bs', c'')))"
  by (induction es arbitrary: c) (auto split: prod.split)

lemma spec_open_blocks:
  "\<forall>e \<in> set es. event_time e < since + open_timeout cfg \<Longrightarrow>
     spec_run cfg es (Open since) = (replicate (length (filter is_allow es)) False, Open since)"
proof (induction es)
  case (Cons e es)
  then show ?case by (cases e) auto
qed simp

lemma spec_half_open:
  "\<forall>e \<in> set es. is_allow e \<Longrightarrow>
     spec_run cfg es (HalfOpen s a) =
       (let n = length es; k = min n (nat (half_open_max_requests cfg - a))
        in (replicate k True @ replicate (n - k) False, HalfOpen s (a + int k)))"
proof (induction es arbitrary: a)
  case (Cons e es)
  then obtain h t t' where e: "e = Allow h t t'" by (cases e) auto
  show ?case
  proof (cases "a < half_open_max_requests cfg")
    case True
    then have "nat (half_open_max_requests cfg - a) = Suc (nat (half_open_max_requests cfg - (a + 1)))"
      by simp
    with True Cons e show ?thesis by (simp add: Let_def min_Suc_Suc)
  next
    case False
    with Cons e show ?thesis by (simp add: Let_def)
  qed
qed simp

lemma run_answers:
  assumes "breaker_ok cb" and "run es cb = (rs, cb')"
  shows "answers_of h rs = fst (spec_run (cb_config cb) (events_of h es) (circuit_of h cb))"
    and "circuit_of h cb' = snd (spec_run (cb_config cb) (events_of h es) (circuit_of h cb))"
  using run_spec [OF assms, of h] by (metis fst_conv, metis snd_conv)

text \<open>
  An open breaker refuses every request for its host, and stays open, whatever is recorded, as
  long as the clock readings lie before the end of \<open>OpenTimeout\<close>.
\<close>

lemma open_blocks_until_timeout:
  assumes ok: "breaker_ok cb" and "run es cb = (rs, cb')"
    and o: "circuit_of h cb = Open since"
    and t: "\<forall>e \<in> set (events_of h es). event_time e < since + open_timeout (cb_config cb)"
  shows "True \<notin> set (answers_of h rs) \<and> circuit_of h cb' = Open since"
  using run_answers [OF assms(1,2), of h] spec_open_blocks [OF t] o by simp

declare run.simps(2) [simp del]

definition example_config :: breaker_config where
  "example_config = \<lparr>max_failures = 2, open_timeout = 10, half_open_max_requests = 1\<rparr>"

text \<open>A breaker that two failures opened at time 1.\<close>

definition example_open :: circuit_breaker where
  "example_open =
     snd (run [Failure ''h'' 0, Failure ''h'' 1] (new_circuit_breaker (Some example_config)))"

lemma run_ok: "breaker_ok cb \<Longrightarrow> breaker_ok (snd (run es cb)) \<and> cb_config (snd (run es cb)) = cb_config cb"
  using run_spec [of cb es "fst (run es cb)" "snd (run es cb)"] by simp

lemma example_open:
  "breaker_ok example_open" "cb_config example_open = example_config"
  "circuit_of ''h'' example_open = Open 1"
proof -
  let ?new = "new_circuit_breaker (Some example_config)"
  have "breaker_ok example_open \<and> cb_config example_open = cb_config ?new"
    unfolding example_open_def by (rule run_ok) simp
  then show "breaker_ok example_open" and "cb_config example_open = example_config"
    by (simp_all add: new_circuit_breaker_def)
  show "circuit_of ''h'' example_open = Open 1" by code_simp
qed

lemma open_blocks_until_timeout_witness:
  "True \<notin> set (answers_of ''h''
     (fst (run [Allow ''h'' 5 5, Success ''h'' 6, Allow ''g'' 90 90, Allow ''h'' 10 10] example_open)))"
  using open_blocks_until_timeout [OF example_open(1) surjective_pairing example_open(3),
      of "[Allow ''h'' 5 5, Success ''h'' 6, Allow ''g'' 90 90, Allow ''h'' 10 10]"]
  by (simp add: example_open(2) events_of_def example_config_def)

lemma half_open_answers:
  assumes ok: "breaker_ok cb" and run: "run es cb = (rs, cb')"
    and o: "circuit_of h cb = HalfOpen s a"
    and no_result: "\<forall>e \<in> set (events_of h es). is_allow e"
  shows "(let n = length (events_of h es);
              k = min n (nat (half_open_max_requests (cb_config cb) - a))
          in answers_of h rs = replicate k True @ replicate (n - k) False
             \<and> circuit_of h cb' = HalfOpen s (a + int k))"
  using run_answers [OF ok run, of h] spec_half_open [OF no_result, of "cb_config cb" s a] o
  by (simp add: Let_def)

lemma half_open_denies:
  assumes "breaker_ok cb" "run es cb = (rs, cb')" "circuit_of h cb = HalfOpen s a"
    and "\<forall>e \<in> set (events_of h es). is_allow e" and "half_open_max_requests (cb_config cb) \<le> a"
  shows "True \<notin> set (answers_of h rs)"
  using half_open_answers [OF assms(1-4)] assms(5) by (auto simp: Let_def)

text \<open>
  As long as no result is recorded, a half-open breaker admits exactly what is left of
  \<open>HalfOpenMaxRequests\<close> and then refuses every request, however late it comes.
\<close>

lemma half_open_budget:
  assumes ok: "breaker_ok cb" and run: "run es cb = (rs, cb')"
    and o: "circuit_of h cb = HalfOpen s a"
    and no_result: "\<forall>e \<in> set (events_of h es). is_allow e"
  shows "(let n = length (events_of h es);
              k = min n (nat (half_open_max_requests (cb_config cb) - a))
          in answers_of h rs = replicate k True @ replicate (n - k) False
             \<and> circuit_of h cb' = HalfOpen s (a + int k))"
  by (rule half_open_answers [OF ok run o no_result])

lemma half_open_budget_witness:
  "answers_of ''h'' (fst (run [Allow ''h'' 12 12, Allow ''h'' 9999 9999]
     (snd (run [Allow ''h'' 11 11] example_open)))) = [False, False]"
proof -
  let ?cb = "snd (run [Allow ''h'' 11 11] example_open)"
  have ok: "breaker_ok ?cb \<and> cb_config ?cb = example_config"
    using run_ok [OF example_open(1)] unfolding example_open(2) .
  have o: "circuit_of ''h'' ?cb = HalfOpen 0 1" by code_simp
  show ?thesis
    using half_open_budget [OF conjunct1 [OF ok] surjective_pairing o,
        of "[Allow ''h'' 12 12, Allow ''h'' 9999 9999]"]
    by (simp add: events_of_def example_config_def ok Let_def)
qed

section \<open>Opening and recovery\<close>

text \<open>
  While no clock reading lies a full timeout after another, a closed circuit opens exactly when
  the recorded results contain \<open>MaxFailures\<close> failures in a row.
\<close>

fun result_of :: "breaker_event \<Rightarrow> bool list" where
  "result_of (Allow h t t') = []"
| "result_of (Success h t) = [True]"
| "result_of (Failure h t) = [False]"

definition results :: "breaker_event list \<Rightarrow> bool list" where
  "results es = concat (map result_of es)"

text \<open>\<open>opens m n rs\<close>: starting after \<open>n\<close> failures in a row, \<open>rs\<close> makes it \<open>m\<close>.\<close>

fun opens :: "int \<Rightarrow> int \<Rightarrow> bool list \<Rightarrow> bool" where
  "opens m n [] = False"
| "opens m n (True # rs) = opens m 0 rs"
| "opens m n (False # rs) = (n + 1 \<ge> m \<or> opens m (n + 1) rs)"

lemma snd_spec_run_Cons:
  "snd (spec_run cfg (e # es) c) = snd (spec_run cfg es (snd (spec_step cfg e c)))"
  by (simp split: prod.split)

lemma spec_open_stays:
  "t0 \<le> since \<Longrightarrow> \<forall>e \<in> set es. event_time e < t0 + open_timeout cfg \<Longrightarrow>
     snd (spec_run cfg es (Open since)) = Open since"
  by (subst spec_open_blocks) auto

lemma spec_closed_run:
  "\<forall>e \<in> set es. t0 \<le> event_time e \<and> event_time e < t0 + open_timeout cfg \<Longrightarrow>
     (if opens (max_failures cfg) n (results es)
      then (\<exists>since. snd (spec_run cfg es (Closed n)) = Open since)
      else (\<exists>k. snd (spec_run cfg es (Closed n)) = Closed k))"
proof (induction es arbitrary: n)
  case Nil
  then show ?case by (simp add: results_def)
next
  case (Cons e es)
  then have t: "t0 \<le> event_time e" "\<forall>e \<in> set es. event_time e < t0 + open_timeout cfg"
    and IH: "\<And>n. if opens (max_failures cfg) n (results es)
      then (\<exists>since. snd (spec_run cfg es (Closed n)) = Open since)
      else (\<exists>k. snd (spec_run cfg es (Closed n)) = Closed k)"
    by auto
  show ?case
    unfolding snd_spec_run_Cons
    using t IH spec_open_stays [OF _ t(2)] by (cases e) (auto simp: results_def)
qed

lemma sublist_around:
  "x \<notin> set xs \<Longrightarrow> sublist xs (ys @ x # zs) \<longleftrightarrow> sublist xs ys \<or> sublist xs zs"
  by (auto simp: sublist_append sublist_Cons_right prefix_Cons)

lemma opens_sublist:
  "0 \<le> n \<Longrightarrow> n < m \<Longrightarrow>
     opens m n rs \<longleftrightarrow> sublist (replicate (nat m) False) (replicate (nat n) False @ rs)"
proof (induction m n rs rule: opens.induct)
  case (1 m n)
  then show ?case using sublist_length_le by fastforce
next
  case (2 m n rs)
  have "\<not> sublist (replicate (nat m) False) (replicate (nat n) False)"
    using 2 sublist_length_le by fastforce
  with 2 show ?case by (simp add: sublist_around)
next
  case (3 m n rs)
  have n: "replicate (nat n) False @ False # rs = replicate (nat (n + 1)) False @ rs"
    using 3 by (simp add: nat_add_distrib replicate_app_Cons_same)
  show ?case
  proof (cases "n + 1 \<ge> m")
    case True
    with 3 have "m = n + 1" by simp
    with True show ?thesis by (auto simp: n)
  next
    case False
    with 3 show ?thesis by (simp add: n)
  qed
qed

text \<open>
  C22: Within one \<open>OpenTimeout\<close>, a fresh breaker is open exactly when
  \<open>MaxFailures\<close> failures in a row have been recorded for the host, and closed
  otherwise.
\<close>

theorem opens_iff_consecutive_failures:
  assumes run: "run es (new_circuit_breaker c) = (rs, cb)" and m: "1 \<le> max_failures (cb_config cb)"
    and t: "\<forall>e \<in> set (events_of h es).
              t0 \<le> event_time e \<and> event_time e < t0 + open_timeout (cb_config cb)"
  shows "get_state h cb =
     (if sublist (replicate (nat (max_failures (cb_config cb))) False) (results (events_of h es))
      then StateOpen else StateClosed)"
proof -
  have cfg: "cb_config (new_circuit_breaker c) = cb_config cb"
    using run_spec [OF _ run] by simp
  have "circuit_of h cb = snd (spec_run (cb_config cb) (events_of h es) (Closed 0))"
    using run_answers(2) [OF _ run, of h] by (simp add: cfg)
  with spec_closed_run [OF t, of 0] m
  show ?thesis
    by (auto simp: opens_sublist get_state_def circuit_of_def circuit_of_breaker_def
        split: option.splits breaker_state.splits if_splits)
qed

theorem opens_iff_consecutive_failures_witness:
  "get_state ''h'' (snd (run [Failure ''h'' 0, Success ''h'' 1, Failure ''h'' 2, Failure ''h'' 3]
     (new_circuit_breaker (Some example_config)))) = StateOpen"
proof -
  let ?es = "[Failure ''h'' 0, Success ''h'' 1, Failure ''h'' 2, Failure ''h'' 3]"
  let ?cb = "snd (run ?es (new_circuit_breaker (Some example_config)))"
  have "cb_config ?cb = example_config"
    using run_ok [OF new_circuit_breaker_ok(1), of ?es "Some example_config"]
    by (simp add: new_circuit_breaker_def)
  then show ?thesis
    using opens_iff_consecutive_failures [OF surjective_pairing, of ?es "Some example_config" "''h''" 0]
    by (simp add: events_of_def results_def example_config_def sublist_Cons_right numeral_2_eq_2
       )
qed

lemma spec_successes:
  "s + int k < half_open_max_requests cfg \<or> k = 0 \<Longrightarrow>
     snd (spec_run cfg (replicate k (Success h t)) (HalfOpen s a)) = HalfOpen (s + int k) a"
proof (induction k arbitrary: s)
  case (Suc k)
  have "spec_success cfg (HalfOpen s a) = HalfOpen (s + 1) a" using Suc.prems by simp
  with Suc show ?case by (simp add: snd_spec_run_Cons del: spec_run.simps(2))
qed simp

lemma snd_spec_run_append:
  "snd (spec_run cfg (es @ fs) c) = snd (spec_run cfg fs (snd (spec_run cfg es c)))"
  by (simp add: spec_run_append split: prod.split)

text \<open>
  C21: After \<open>OpenTimeout\<close> the next request is admitted and the breaker is half-open;
  \<open>HalfOpenMaxRequests\<close> successes close it with a clean failure count, and a failure
  before that opens it again from that moment.
\<close>

theorem half_open_recovers:
  assumes ok: "breaker_ok cb" and o: "circuit_of h cb = Open since"
    and t: "since + open_timeout (cb_config cb) \<le> t"
    and k: "k < nat (max 1 (half_open_max_requests (cb_config cb)))"
  shows "fst (allow h t t' cb) = None
    \<and> circuit_of h (snd (run (Allow h t t' # replicate k (Success h u)) cb)) = HalfOpen (int k) 1
    \<and> circuit_of h (snd (run (Allow h t t' # replicate k (Success h u) @ [Failure h v]) cb)) = Open v
    \<and> (k + 1 = nat (max 1 (half_open_max_requests (cb_config cb))) \<longrightarrow>
       circuit_of h (snd (run (Allow h t t' # replicate k (Success h u) @ [Success h v]) cb)) = Closed 0)"
proof -
  let ?cfg = "cb_config cb"
  let ?es = "Allow h t t' # replicate k (Success h u)"
  have ev: "events_of h (?es @ [e]) = ?es @ [e] \<and> events_of h ?es = ?es" if "event_host e = h" for e
    using that by (simp add: events_of_def)
  have half: "snd (spec_run ?cfg ?es (Open since)) = HalfOpen (int k) 1"
    using t spec_successes [of 0 k ?cfg h u 1] k by (cases "k = 0")
      (auto simp: snd_spec_run_Cons simp del: spec_run.simps(2))
  have step: "circuit_of h (snd (run es cb)) = snd (spec_run ?cfg (events_of h es) (Open since))" for es
    using run_answers(2) [OF ok surjective_pairing, of h es] o by simp
  have "circuit_of h (snd (run ?es cb)) = HalfOpen (int k) 1"
    unfolding step using ev [of "Failure h v"] half by simp
  moreover have fin: "circuit_of h (snd (run (?es @ [e]) cb)) = snd (spec_step ?cfg e (HalfOpen (int k) 1))"
    if "event_host e = h" for e
    unfolding step snd_spec_run_append half conjunct1 [OF ev [OF that]]
    by (simp split: prod.split)
  moreover have "fst (allow h t t' cb) = None"
  proof -
    obtain r ev cb' where l: "allow_locked h t t' cb = (r, ev, cb')" by (metis surj_pair)
    from allow_locked_spec [OF ok l] t o have "r = None" by simp
    with l show ?thesis by (simp add: allow_slow_path)
  qed
  ultimately show ?thesis
    using fin [of "Failure h v"] fin [of "Success h v"] by auto
qed

theorem half_open_recovers_witness:
  "circuit_of ''h'' (snd (run [Allow ''h'' 11 11, Success ''h'' 12] example_open)) = Closed 0"
  using half_open_recovers [OF example_open(1,3), of 11 0 11 12 12]
  by (simp add: example_open(2) example_config_def)

section \<open>Interleavings\<close>

fun locked_run :: "breaker_event list \<Rightarrow> breaker_system \<Rightarrow> breaker_system" where
  "locked_run [] s = s"
| "locked_run (e # es) (cb, pending) =
     (case locked_step e cb of (new, cb') \<Rightarrow> locked_run es (cb', pending @ new))"

lemma locked_run_reachable:
  "reachable breaker_start breaker_trans s \<Longrightarrow>
     reachable breaker_start breaker_trans (locked_run es s)"
proof (induction es s rule: locked_run.induct)
  case (2 e es cb pending)
  obtain new cb' where l: "locked_step e cb = (new, cb')" by fastforce
  with 2 reach_step [OF 2(2) breaker_trans.lock [OF l]] show ?case by simp
qed simp

text \<open>
  C23: In every interleaving of critical sections and gauge calls, a closed breaker has fewer than
  \<open>MaxFailures\<close> failures, or none; an open or half-open one still has the count that
  opened it, \<open>MaxFailures\<close> or at least one. The half-open counters are zero outside
  that state; in it fewer than \<open>HalfOpenMaxRequests\<close> successes, or none, are counted
  and at most that many requests, or one, were admitted.
\<close>

theorem breaker_invariant:
  assumes "reachable breaker_start breaker_trans (cb, pending)" and "breakers cb h = Some hb"
  shows "case state hb of
      StateClosed \<Rightarrow> half_open_success hb = 0 \<and> half_open_allowed hb = 0
        \<and> (if failures hb = 0 then True else 0 < failures hb \<and> failures hb < max_failures (cb_config cb))
    | StateOpen \<Rightarrow> half_open_success hb = 0 \<and> half_open_allowed hb = 0
        \<and> failures hb = max 1 (max_failures (cb_config cb))
    | StateHalfOpen \<Rightarrow> failures hb = max 1 (max_failures (cb_config cb))
        \<and> (if half_open_success hb = 0 then True
           else 0 < half_open_success hb \<and> half_open_success hb < half_open_max_requests (cb_config cb))
        \<and> 1 \<le> half_open_allowed hb \<and> half_open_allowed hb \<le> max 1 (half_open_max_requests (cb_config cb))"
proof -
  have "host_ok (cb_config cb) hb"
    using bs.inv_reachable [OF assms(1)] assms(2) by (auto simp: breaker_ok_def ran_def)
  then show ?thesis by (auto simp: host_ok_def split: breaker_state.splits)
qed

theorem breaker_invariant_witness:
  "case breakers (fst (locked_run [Failure ''h'' 0, Failure ''h'' 1, Allow ''h'' 11 11]
       (new_circuit_breaker (Some example_config), []))) ''h'' of
     None \<Rightarrow> False | Some hb \<Rightarrow> failures hb = max 1 (max_failures example_config)"
proof -
  let ?s = "locked_run [Failure ''h'' 0, Failure ''h'' 1, Allow ''h'' 11 11]
      (new_circuit_breaker (Some example_config), [])"
  have "reachable breaker_start breaker_trans (fst ?s, snd ?s)"
    unfolding prod.collapse
    by (rule locked_run_reachable, rule reach_start) (auto simp: breaker_start_def)
  note inv = breaker_invariant [OF this]
  have hb: "breakers (fst ?s) ''h'' = Some \<lparr>state = StateHalfOpen, failures = 2,
      last_state_change = 11, half_open_success = 0, half_open_allowed = 1\<rparr>"
    "cb_config (fst ?s) = example_config"
    by code_simp+
  from inv [OF hb(1)] show ?thesis by (simp add: hb del: locked_run.simps)
qed

section \<open>The gauge\<close>

definition gauge_of :: "string \<Rightarrow> (string \<times> breaker_state) list \<Rightarrow> breaker_state option" where
  "gauge_of h calls = map_of (rev calls) h"

lemma gauge_of_append [simp]:
  "gauge_of h (calls @ [(k, s)]) = (if k = h then Some s else gauge_of h calls)"
  by (simp add: gauge_of_def)

definition gauge_ok :: "circuit_breaker \<Rightarrow> bool" where
  "gauge_ok cb \<longleftrightarrow> (\<forall>h. gauge_of h (gauge_calls cb) = map_option state (breakers cb h))"

lemma step_gauge_ok: "gauge_ok cb \<Longrightarrow> gauge_ok (snd (step e cb))"
proof (cases e)
  case (Allow h t t')
  assume "gauge_ok cb"
  with Allow show ?thesis
    by (cases rule: get_or_create_cases [of cb h t];
        auto simp: allow_slow_path allow_locked_def gauge_ok_def gauge_of_def breaker_simps publish_def
          fresh_breaker_def split: breaker_state.split if_splits)
next
  case (Success h t)
  assume "gauge_ok cb"
  with Success show ?thesis
    by (cases rule: get_or_create_cases [of cb h t];
        auto simp: record_success_def record_success_locked_def gauge_ok_def gauge_of_def breaker_simps
          publish_def fresh_breaker_def Let_def split: breaker_state.split if_splits)
next
  case (Failure h t)
  assume "gauge_ok cb"
  with Failure show ?thesis
    by (cases rule: get_or_create_cases [of cb h t];
        auto simp: record_failure_def record_failure_locked_def gauge_ok_def gauge_of_def breaker_simps
          publish_def fresh_breaker_def Let_def split: breaker_state.split if_splits)
qed

lemma snd_run_Cons: "snd (run (e # es) cb) = snd (run es (snd (step e cb)))"
  by (simp add: run.simps(2) split: prod.split)

lemma run_gauge_ok: "gauge_ok cb \<Longrightarrow> gauge_ok (snd (run es cb))"
  by (induction es arbitrary: cb) (simp_all add: snd_run_Cons step_gauge_ok)

text \<open>
  When the operations do not overlap, the last gauge call for a host reports the state of its
  breaker, and a host without a breaker has none.
\<close>

lemma gauge_follows_state:
  "gauge_of h (gauge_calls (snd (run es (new_circuit_breaker c)))) =
     map_option state (breakers (snd (run es (new_circuit_breaker c))) h)"
proof -
  have "gauge_ok (new_circuit_breaker c)"
    by (simp add: gauge_ok_def new_circuit_breaker_def gauge_of_def)
  from run_gauge_ok [OF this] show ?thesis by (simp add: gauge_ok_def)
qed

text \<open>
  Between goroutines the gauge calls may be made in another order than the transitions they
  report, because they follow the unlock: here the circuit has closed again and every call has
  been made, but the gauge reads open.
\<close>

definition stale_run :: breaker_system where
  "stale_run = locked_run [Failure ''h'' 0, Failure ''h'' 1, Allow ''h'' 11 11, Success ''h'' 12]
     (new_circuit_breaker (Some example_config), [])"

text \<open>
  C32: Because the gauge call follows the unlock, goroutines can report their transitions out of
  order: there is a reachable state with no call outstanding in which a circuit is closed and its
  gauge reads open.
\<close>

theorem stale_gauge:
  "\<exists>cb. reachable breaker_start breaker_trans (cb, [])
     \<and> get_state ''h'' cb = StateClosed \<and> gauge_of ''h'' (gauge_calls cb) = Some StateOpen"
proof -
  let ?R = "reachable breaker_start breaker_trans"
  let ?cb = "fst stale_run"
  let ?gauged = "set_gauge ''h'' StateOpen (set_gauge ''h'' StateClosed (set_gauge ''h'' StateHalfOpen ?cb))"
  have gauge: "?R (set_gauge (fst p) (snd p) cb, remove1 p ps)"
    if "?R (cb, ps)" "p \<in> set ps" for p cb ps
    using that(1) by (rule reach_step) (rule breaker_trans.gauge, rule that)
  have "?R stale_run"
    unfolding stale_run_def
    by (rule locked_run_reachable, rule reach_start) (auto simp: breaker_start_def)
  moreover have "snd stale_run = [(''h'', StateOpen), (''h'', StateHalfOpen), (''h'', StateClosed)]"
    by code_simp
  ultimately have "?R (?cb, [(''h'', StateOpen), (''h'', StateHalfOpen), (''h'', StateClosed)])"
    by (metis prod.collapse)
  from gauge [OF gauge [OF gauge [OF this, of "(''h'', StateHalfOpen)"],
      of "(''h'', StateClosed)"], of "(''h'', StateOpen)"]
  have "?R (?gauged, [])" by simp
  moreover have "get_state ''h'' ?cb = StateClosed" by code_simp
  ultimately show ?thesis
    by (intro exI [of _ ?gauged]) (simp add: gauge_of_def breaker_simps get_state_def)
qed

end
