(* ===== verification/ClientDo.thy ===== *)
theory ClientDo
  imports TargetCache CircuitBreaker
begin

text \<open>
  \<open>Client.Do\<close> with \<open>handleAuthRetry\<close>, the methods built on it and the redirect
  check (\<open>client.go\<close>). The hooks, the retrying client below and the metrics backend are
  parameters acting on a world \<open>'w\<close>; the breaker and the gauge of requests in flight are the
  client's own state.
\<close>

section \<open>Requests and responses\<close>

text \<open>
  A request has its URL with the text \<open>URL.String\<close> gives for it, and what the pipeline sets
  or reads: two headers, the body and the result its \<open>GetBody\<close> would have, if it has that
  function. \<open>Do\<close> may be handed a nil request or one with a nil URL.
\<close>

record request =
  req_method :: string
  req_url :: "url \<times> string"
  authorization :: "string option"
  content_type :: "string option"
  req_body :: "string option"
  get_body :: "(go_err + string) option"

datatype incoming = NilRequest | NilURL | Request request

text \<open>A response body is the transport's, or another one behind a \<open>limitedReadCloser\<close>.\<close>

datatype body = RawBody nat | LimitedBody body int

record response =
  status_code :: int
  resp_body :: "body option"

type_synonym 'w request_hook = "request \<Rightarrow> 'w \<Rightarrow> (go_err option \<times> request) \<times> 'w"
type_synonym 'w response_hook = "response \<Rightarrow> 'w \<Rightarrow> (go_err option \<times> response) \<times> 'w"
type_synonym do_result = "response option \<times> go_err option"

text \<open>
  What a client is configured with and the code it calls. Its policy is resolved from two fields of
  the configuration. \<open>clock\<close> gives two successive readings of the time.
\<close>

record 'w client =
  parse_url :: url_parser
  conf_ip_policy :: "ip_policy option"
  conf_allow_private_ips :: bool
  request_hooks :: "'w request_hook list"
  response_hooks :: "'w response_hook list"
  on_unauthorized :: "('w \<Rightarrow> (string \<times> go_err option) \<times> 'w) option"
  max_response_body_size :: int
  from_request :: "request \<Rightarrow> go_err option"
  retry_do :: "request \<Rightarrow> 'w \<Rightarrow> do_result \<times> 'w"
  http_do :: "request \<Rightarrow> 'w \<Rightarrow> do_result \<times> 'w"
  close_body :: "body \<Rightarrow> 'w \<Rightarrow> 'w"
  drain_body :: "body \<Rightarrow> 'w \<Rightarrow> 'w"
  clock :: "'w \<Rightarrow> instant \<times> instant"
  new_request :: "string \<Rightarrow> string \<Rightarrow> string option \<Rightarrow> go_err + request"

definition resolve_ip_policy :: "ip_policy option \<Rightarrow> bool \<Rightarrow> ip_policy" where
  "resolve_ip_policy configured allow_private_ips =
     (case configured of
        Some p \<Rightarrow> p
      | None \<Rightarrow> if allow_private_ips then allow_all_private_ips else default_ip_policy)"

definition policy :: "'w client \<Rightarrow> ip_policy" where
  "policy c = resolve_ip_policy (conf_ip_policy c) (conf_allow_private_ips c)"

text \<open>
  The state of a client. \<open>sent\<close> lists the requests handed to the layer below, marked
  \<open>True\<close> for the second attempt of \<open>handleAuthRetry\<close>. \<open>panicked\<close> is set when a
  nil body is read; the result of such a call is no result.
\<close>

record 'w client_state =
  breaker :: "circuit_breaker option"
  in_flight :: int
  sent :: "(bool \<times> request) list"
  panicked :: bool
  world :: 'w

section \<open>The pipeline\<close>

fun run_request_hooks ::
    "'w request_hook list \<Rightarrow> request \<Rightarrow> 'w \<Rightarrow> (go_err option \<times> request) \<times> 'w" where
  "run_request_hooks [] r w = ((None, r), w)"
| "run_request_hooks (h # hs) r w =
     (case h r w of
        ((Some e, r'), w') \<Rightarrow> ((Some (errorf_w ''request hook failed'' e), r'), w')
      | ((None, r'), w') \<Rightarrow> run_request_hooks hs r' w')"

text \<open>The response hooks; when one fails, the body the response then has is closed.\<close>

fun run_response_hooks ::
    "'w client \<Rightarrow> string \<Rightarrow> 'w response_hook list \<Rightarrow> response \<Rightarrow> 'w
      \<Rightarrow> (go_err option \<times> response) \<times> 'w" where
  "run_response_hooks c m [] resp w = ((None, resp), w)"
| "run_response_hooks c m (h # hs) resp w =
     (case h resp w of
        ((Some e, resp'), w') \<Rightarrow>
          ((Some (errorf_w m e), resp'),
           case resp_body resp' of None \<Rightarrow> w' | Some b \<Rightarrow> close_body c b w')
      | ((None, resp'), w') \<Rightarrow> run_response_hooks c m hs resp' w')"

definition limit_body :: "'w client \<Rightarrow> do_result \<Rightarrow> do_result" where
  "limit_body c r =
     (case r of
        (Some resp, None) \<Rightarrow>
          (case resp_body resp of
             Some b \<Rightarrow>
               if max_response_body_size c > 0
               then (Some (resp\<lparr>resp_body := Some (LimitedBody b (max_response_body_size c))\<rparr>), None)
               else r
           | None \<Rightarrow> r)
      | _ \<Rightarrow> r)"

definition record_result ::
    "'w client \<Rightarrow> request \<Rightarrow> do_result \<Rightarrow> 'w client_state \<Rightarrow> 'w client_state" where
  "record_result c req r s =
     (case breaker s of
        None \<Rightarrow> s
      | Some cb \<Rightarrow>
          (let host = hostname (fst (req_url req)); now = fst (clock c (world s))
           in if snd r \<noteq> None \<or> (case fst r of Some resp \<Rightarrow> status_code resp \<ge> 500 | None \<Rightarrow> False)
              then s\<lparr>breaker := Some (record_failure host now cb)\<rparr>
              else if fst r \<noteq> None
              then s\<lparr>breaker := Some (record_success host now cb)\<rparr>
              else s))"

text \<open>\<open>http.StatusUnauthorized\<close>\<close>

definition status_unauthorized :: int where
  "status_unauthorized = 401"

text \<open>
  \<open>handleAuthRetry\<close>. A response of \<open>net/http\<close> always carries a body, but a response hook
  may have taken it away: the drain then panics.
\<close>

definition auth_retry_request :: "request \<Rightarrow> string \<Rightarrow> go_err + request" where
  "auth_retry_request req auth =
     (let r = req\<lparr>authorization := Some auth\<rparr>
      in case get_body req of
           None \<Rightarrow> Inr r
         | Some (Inl e) \<Rightarrow> Inl (errorf_w ''failed to replay request body for auth retry'' e)
         | Some (Inr b) \<Rightarrow> Inr (r\<lparr>req_body := Some b\<rparr>))"

definition handle_auth_retry ::
    "'w client \<Rightarrow> ('w \<Rightarrow> (string \<times> go_err option) \<times> 'w) \<Rightarrow> request \<Rightarrow> response \<Rightarrow> 'w client_state
      \<Rightarrow> do_result \<times> 'w client_state" where
  "handle_auth_retry c hook req resp401 s =
     (case hook (world s) of
        ((auth, Some e), w) \<Rightarrow>
          ((Some resp401, Some (errorf_w ''OnUnauthorized hook failed'' e)), s\<lparr>world := w\<rparr>)
      | ((auth, None), w) \<Rightarrow>
          if auth = [] then ((Some resp401, None), s\<lparr>world := w\<rparr>)
          else
            (case resp_body resp401 of
               None \<Rightarrow> ((None, None), s\<lparr>world := w, panicked := True\<rparr>)
             | Some b \<Rightarrow>
                 (let w = close_body c b (drain_body c b w)
                  in case auth_retry_request req auth of
                       Inl e \<Rightarrow> ((None, Some e), s\<lparr>world := w\<rparr>)
                     | Inr retry_req \<Rightarrow>
                         (case http_do c retry_req w of
                            (r, w) \<Rightarrow>
                              (let r = limit_body c r;
                                   s = s\<lparr>sent := sent s @ [(True, retry_req)]\<rparr>
                               in case r of
                                    (Some resp, None) \<Rightarrow>
                                      (case run_response_hooks c ''response hook failed after auth retry''
                                          (response_hooks c) resp w of
                                         ((Some e, _), w) \<Rightarrow> ((None, Some e), s\<lparr>world := w\<rparr>)
                                       | ((None, resp), w) \<Rightarrow> ((Some resp, None), s\<lparr>world := w\<rparr>))
                                  | _ \<Rightarrow> (r, s\<lparr>world := w\<rparr>))))))"

text \<open>What follows the result of the call: response hooks and the retry of a 401.\<close>

definition after_call :: "'w client \<Rightarrow> request \<Rightarrow> do_result \<Rightarrow> 'w client_state \<Rightarrow> do_result \<times> 'w client_state"
  where
  "after_call c req r s =
     (case r of
        (None, e) \<Rightarrow> (r, s)
      | (Some resp, e) \<Rightarrow>
          (case run_response_hooks c ''response hook failed'' (response_hooks c) resp (world s) of
             ((Some he, _), w) \<Rightarrow> ((None, Some he), s\<lparr>world := w\<rparr>)
           | ((None, resp), w) \<Rightarrow>
               (let s = s\<lparr>world := w\<rparr>
                in case on_unauthorized c of
                     Some hook \<Rightarrow>
                       if e = None \<and> status_code resp = status_unauthorized
                       then handle_auth_retry c hook req resp s
                       else ((Some resp, e), s)
                   | None \<Rightarrow> ((Some resp, e), s))))"

definition send_request :: "'w client \<Rightarrow> request \<Rightarrow> 'w client_state \<Rightarrow> do_result \<times> 'w client_state" where
  "send_request c req s =
     (case from_request c req of
        Some e \<Rightarrow> ((None, Some (errorf_w ''failed to create retryable request'' e)), s)
      | None \<Rightarrow>
          (case retry_do c req (world s) of
             (r, w) \<Rightarrow>
               (let r = limit_body c r;
                    s = record_result c req r (s\<lparr>world := w, sent := sent s @ [(False, req)]\<rparr>)
                in after_call c req r s)))"

text \<open>An admitted request. The decrement is the deferred call.\<close>

definition do_admitted :: "'w client \<Rightarrow> request \<Rightarrow> 'w client_state \<Rightarrow> do_result \<times> 'w client_state" where
  "do_admitted c req s =
     (case run_request_hooks (request_hooks c) req (world s) of
        ((Some e, _), w) \<Rightarrow> ((None, Some e), s\<lparr>world := w\<rparr>)
      | ((None, req), w) \<Rightarrow>
          (case send_request c req (s\<lparr>world := w, in_flight := in_flight s + 1\<rparr>) of
             (r, s) \<Rightarrow> (r, s\<lparr>in_flight := in_flight s - 1\<rparr>)))"

definition do_request :: "'w client \<Rightarrow> incoming \<Rightarrow> 'w client_state \<Rightarrow> do_result \<times> 'w client_state" where
  "do_request c i s =
     (case i of
        Request req \<Rightarrow>
          (case validate_url (parse_url c) (Some (policy c)) (snd (req_url req)) of
             Some e \<Rightarrow> ((None, Some e), s)
           | None \<Rightarrow>
               (case breaker s of
                  None \<Rightarrow> do_admitted c req s
                | Some cb \<Rightarrow>
                    (case allow (hostname (fst (req_url req))) (fst (clock c (world s)))
                        (snd (clock c (world s))) cb of
                       (Some e, cb') \<Rightarrow> ((None, Some e), s\<lparr>breaker := Some cb'\<rparr>)
                     | (None, cb') \<Rightarrow> do_admitted c req (s\<lparr>breaker := Some cb'\<rparr>))))
      | _ \<Rightarrow> ((None, Some (errorf ''request or request URL is nil'')), s))"

section \<open>Methods\<close>

definition with_request ::
    "'w client \<Rightarrow> string \<Rightarrow> go_err + request \<Rightarrow> 'w client_state \<Rightarrow> do_result \<times> 'w client_state" where
  "with_request c m r s =
     (case r of
        Inl e \<Rightarrow> ((None, Some (errorf_w m e)), s)
      | Inr req \<Rightarrow> do_request c (Request req) s)"

definition set_content_type :: "string \<Rightarrow> request \<Rightarrow> request" where
  "set_content_type ct r = (if ct \<noteq> [] then r\<lparr>content_type := Some ct\<rparr> else r)"

definition client_get :: "'w client \<Rightarrow> string \<Rightarrow> 'w client_state \<Rightarrow> do_result \<times> 'w client_state" where
  "client_get c u = with_request c ''failed to create GET request'' (new_request c ''GET'' u None)"

definition client_post ::
    "'w client \<Rightarrow> string \<Rightarrow> string \<Rightarrow> string option \<Rightarrow> 'w client_state \<Rightarrow> do_result \<times> 'w client_state" where
  "client_post c u ct b =
     with_request c ''failed to create POST request''
       (map_sum id (set_content_type ct) (new_request c ''POST'' u b))"

definition client_put ::
    "'w client \<Rightarrow> string \<Rightarrow> string \<Rightarrow> string option \<Rightarrow> 'w client_state \<Rightarrow> do_result \<times> 'w client_state" where
  "client_put c u ct b =
     with_request c ''failed to create PUT request''
       (map_sum id (set_content_type ct) (new_request c ''PUT'' u b))"

definition client_delete :: "'w client \<Rightarrow> string \<Rightarrow> 'w client_state \<Rightarrow> do_result \<times> 'w client_state" where
  "client_delete c u =
     with_request c ''failed to create DELETE request'' (new_request c ''DELETE'' u None)"

section \<open>Redirects\<close>

text \<open>
  The \<open>CheckRedirect\<close> function of the client, and the loop of \<open>net/http\<close> that calls it
  with the requests made so far before each further one. \<open>redirect_of\<close> is the URL the servers
  redirect the latest request to, if any, which may depend on all the requests before it.
\<close>

definition redirect_limit :: "int \<Rightarrow> int" where
  "redirect_limit n = (if n \<le> 0 then default_max_redirects else n)"

definition check_redirect ::
    "url_parser \<Rightarrow> ip_policy \<Rightarrow> int \<Rightarrow> string list \<Rightarrow> string \<Rightarrow> go_err option" where
  "check_redirect parse p max_redirects via raw =
     (if int (length via) \<ge> redirect_limit max_redirects
      then Some (errorf ''stopped after redirects'')
      else validate_url parse (Some p) raw)"

function follow ::
    "url_parser \<Rightarrow> ip_policy \<Rightarrow> int \<Rightarrow> (string list \<Rightarrow> string option) \<Rightarrow> string list \<Rightarrow> string
      \<Rightarrow> string list \<times> go_err option" where
  "follow parse p n redirect_of via raw =
     (case redirect_of (via @ [raw]) of
        None \<Rightarrow> (via @ [raw], None)
      | Some raw' \<Rightarrow>
          (case check_redirect parse p n (via @ [raw]) raw' of
             Some e \<Rightarrow> (via @ [raw], Some e)
           | None \<Rightarrow> follow parse p n redirect_of (via @ [raw]) raw'))"
  by pat_completeness auto
termination
  by (relation "measure (\<lambda>(parse, p, n, redirect_of, via, raw). nat (redirect_limit n - int (length via)))")
    (auto simp: check_redirect_def split: if_splits)

declare follow.simps [simp del]

section \<open>Frame lemmas\<close>

text \<open>What a part of the pipeline leaves alone, and what it may add to the requests sent.\<close>

lemma record_result_frame [simp]:
  "in_flight (record_result c req r s) = in_flight s"
  "sent (record_result c req r s) = sent s"
  "world (record_result c req r s) = world s"
  by (simp_all add: record_result_def Let_def split: option.split)

lemma handle_auth_retry_frame:
  assumes "handle_auth_retry c hook req resp s = (r, s')"
  shows "in_flight s' = in_flight s \<and> breaker s' = breaker s
    \<and> (sent s' = sent s \<or> (\<exists>req'. sent s' = sent s @ [(True, req')]))"
  using assms
  by (auto simp: handle_auth_retry_def Let_def split: prod.splits option.splits if_splits sum.splits)

lemma after_call_frame:
  assumes "after_call c req r s = (r', s')"
  shows "in_flight s' = in_flight s \<and> breaker s' = breaker s
    \<and> (sent s' = sent s \<or> (on_unauthorized c \<noteq> None \<and> (\<exists>req'. sent s' = sent s @ [(True, req')])))"
  using assms
  by (auto simp: after_call_def Let_def split: prod.splits option.splits if_splits
      dest!: handle_auth_retry_frame)

lemma send_request_frame:
  assumes "send_request c req s = (r, s')"
  shows "in_flight s' = in_flight s
    \<and> ((sent s' = sent s \<and> breaker s' = breaker s)
       \<or> (\<exists>rest. sent s' = sent s @ (False, req) # rest
            \<and> (rest = [] \<or> (on_unauthorized c \<noteq> None \<and> (\<exists>req'. rest = [(True, req')])))
            \<and> breaker s' = breaker (record_result c req (limit_body c (fst (retry_do c req (world s))))
                 (s\<lparr>world := snd (retry_do c req (world s))\<rparr>))))"
proof (cases "from_request c req")
  case None
  obtain r1 w1 where d: "retry_do c req (world s) = (r1, w1)" by fastforce
  let ?s1 = "record_result c req (limit_body c r1)
      (s\<lparr>world := w1, sent := sent s @ [(False, req)]\<rparr>)"
  have b: "breaker ?s1 = breaker (record_result c req (limit_body c r1) (s\<lparr>world := w1\<rparr>))"
    by (simp add: record_result_def Let_def split: option.split)
  have "after_call c req (limit_body c r1) ?s1 = (r, s')"
    using assms None d by (simp add: send_request_def Let_def)
  from after_call_frame [OF this] d b show ?thesis by auto
next
  case (Some e)
  with assms show ?thesis by (auto simp: send_request_def)
qed

lemma do_admitted_frame:
  assumes "do_admitted c req s = (r, s')"
  shows "in_flight s' = in_flight s
    \<and> ((sent s' = sent s \<and> breaker s' = breaker s)
       \<or> (\<exists>req1 w1 rest. run_request_hooks (request_hooks c) req (world s) = ((None, req1), w1)
            \<and> sent s' = sent s @ (False, req1) # rest
            \<and> (rest = [] \<or> (on_unauthorized c \<noteq> None \<and> (\<exists>req'. rest = [(True, req')])))
            \<and> breaker s' = breaker (record_result c req1 (limit_body c (fst (retry_do c req1 w1)))
                 (s\<lparr>world := snd (retry_do c req1 w1)\<rparr>))))"
proof -
  obtain e req1 w1 where h: "run_request_hooks (request_hooks c) req (world s) = ((e, req1), w1)"
    by (metis surj_pair)
  show ?thesis
  proof (cases e)
    case None
    let ?s = "s\<lparr>world := w1, in_flight := in_flight s + 1\<rparr>"
    obtain s1 where snd: "send_request c req1 ?s = (r, s1)"
      and s': "s' = s1\<lparr>in_flight := in_flight s1 - 1\<rparr>"
      using assms h None by (auto simp: do_admitted_def split: prod.splits)
    have b: "breaker (record_result c req1 x (?s\<lparr>world := w\<rparr>)) =
        breaker (record_result c req1 x (s\<lparr>world := w\<rparr>))" for x w
      by (simp add: record_result_def Let_def split: option.split)
    from send_request_frame [OF snd] h None s' b show ?thesis by simp
  next
    case (Some x)
    with assms h show ?thesis by (auto simp: do_admitted_def)
  qed
qed

text \<open>A request whose URL passes and that the breaker, if any, admits, with the breaker then.\<close>

definition admitted :: "'w client \<Rightarrow> request \<Rightarrow> 'w client_state \<Rightarrow> circuit_breaker option \<Rightarrow> bool" where
  "admitted c req s b \<longleftrightarrow>
     validate_url (parse_url c) (Some (policy c)) (snd (req_url req)) = None
     \<and> (case breaker s of
          None \<Rightarrow> b = None
        | Some cb \<Rightarrow> (case allow (hostname (fst (req_url req))) (fst (clock c (world s)))
              (snd (clock c (world s))) cb of (e, cb') \<Rightarrow> e = None \<and> b = Some cb'))"

lemma set_same_breaker: "breaker s = b \<Longrightarrow> s\<lparr>breaker := b\<rparr> = s"
  by (cases s) simp

lemma do_request_cases:
  assumes "do_request c i s = (r, s')"
  obtains
    (admitted) req b where "i = Request req" "admitted c req s b"
      "do_admitted c req (s\<lparr>breaker := b\<rparr>) = (r, s')"
  | (refused) e where "r = (None, Some e)" "sent s' = sent s" "in_flight s' = in_flight s"
      "world s' = world s" "\<And>req b. i = Request req \<Longrightarrow> \<not> admitted c req s b"
proof (cases i)
  case (Request req)
  show ?thesis
  proof (cases "\<exists>b. admitted c req s b")
    case True
    then obtain b where b: "admitted c req s b" by blast
    with Request assms admitted show ?thesis
      by (cases "breaker s")
        (auto simp: do_request_def admitted_def set_same_breaker split: prod.splits)
  next
    case False
    have "\<exists>e. r = (None, Some e) \<and> sent s' = sent s \<and> in_flight s' = in_flight s \<and> world s' = world s"
      using False Request assms
      by (auto simp: do_request_def admitted_def split: option.splits prod.splits)
    with False Request refused show ?thesis by auto
  qed
qed (use assms refused in \<open>auto simp: do_request_def\<close>)

section \<open>An example\<close>

text \<open>
  An example: a client whose breaker two failures opened, and that a failing request hook keeps
  from ever recording a result. The world counts the calls made.
\<close>

definition example_request :: request where
  "example_request =
     \<lparr>req_method = ''GET'', req_url = (\<lparr>url_scheme = ''http'', url_host = ''h'', url_path = []\<rparr>, ''h''),
      authorization = None, content_type = None, req_body = None, get_body = None\<rparr>"

definition example_client :: "nat request_hook list \<Rightarrow> int \<Rightarrow> nat client" where
  "example_client hooks status =
     \<lparr>parse_url = (\<lambda>s. Inr \<lparr>url_scheme = ''http'', url_host = s, url_path = []\<rparr>),
      conf_ip_policy = None, conf_allow_private_ips = False, request_hooks = hooks, response_hooks = [],
      on_unauthorized = Some (\<lambda>w. ((''Bearer t'', None), w)), max_response_body_size = 100,
      from_request = (\<lambda>_. None),
      retry_do = (\<lambda>_ w. ((Some \<lparr>status_code = status, resp_body = Some (RawBody w)\<rparr>, None), w + 1)),
      http_do = (\<lambda>_ w. ((Some \<lparr>status_code = status, resp_body = Some (RawBody w)\<rparr>, None), w + 1)),
      close_body = (\<lambda>_ w. w), drain_body = (\<lambda>_ w. w), clock = (\<lambda>_. (11, 11)),
      new_request = (\<lambda>_ _ _. Inr example_request)\<rparr>"

definition example_state :: "nat client_state" where
  "example_state = \<lparr>breaker = Some example_open, in_flight = 0, sent = [],
     panicked = False, world = 0\<rparr>"

lemma example_admitted:
  "admitted (example_client hooks status) example_request example_state
     (Some (snd (allow ''h'' 11 11 example_open)))"
proof -
  have "validate_url (\<lambda>s. Inr \<lparr>url_scheme = ''http'', url_host = s, url_path = []\<rparr>)
      (Some default_ip_policy) ''h'' = None"
    "fst (allow ''h'' 11 11 example_open) = None" "hostname (fst (req_url example_request)) = ''h''"
    by code_simp+
  then show ?thesis
    by (cases "allow ''h'' 11 11 example_open")
      (simp add: admitted_def policy_def resolve_ip_policy_def example_client_def example_state_def example_request_def)
qed

section \<open>Properties\<close>

text \<open>
  C7: \<open>Do\<close> sends a request only after its URL passed the policy and the breaker
  admitted its host; it sends the hooked request first, and at most one more, and only if
  \<open>OnUnauthorized\<close> is set.
\<close>

theorem do_request_guarded:
  assumes "do_request c i s = (r, s')" and "sent s' \<noteq> sent s"
  shows "\<exists>req b req1 w1 rest. i = Request req \<and> admitted c req s b
    \<and> run_request_hooks (request_hooks c) req (world s) = ((None, req1), w1)
    \<and> sent s' = sent s @ (False, req1) # rest
    \<and> length rest \<le> (if on_unauthorized c = None then 0 else 1)"
  using assms(1)
proof (cases rule: do_request_cases)
  case (admitted req b)
  from do_admitted_frame [OF admitted(3)] assms(2) admitted(1,2) show ?thesis by auto
next
  case (refused e)
  with assms(2) show ?thesis by simp
qed

theorem do_request_guarded_witness:
  "\<exists>rest. sent (snd (do_request (example_client [] 401) (Request example_request) example_state)) =
      (False, example_request) # rest \<and> length rest \<le> 1"
proof -
  let ?s = "snd (do_request (example_client [] 401) (Request example_request) example_state)"
  have "length (sent ?s) = 2" by code_simp
  then have "sent ?s \<noteq> sent example_state" by (auto simp: example_state_def)
  from do_request_guarded [OF surjective_pairing this] show ?thesis
    by (auto simp: example_client_def example_state_def)
qed

text \<open>
  On every path through \<open>Do\<close>, errors and the retry included, the gauge of requests in
  flight ends where it began.
\<close>

lemma in_flight_balanced: "in_flight (snd (do_request c i s)) = in_flight s"
proof -
  obtain r s' where run: "do_request c i s = (r, s')" by fastforce
  then have "in_flight s' = in_flight s"
    by (cases rule: do_request_cases) (auto dest!: do_admitted_frame)
  then show ?thesis by (simp add: run)
qed

text \<open>
  The retry of a 401 panics exactly if the hook gives a token and the response has no body any more.
\<close>

lemma auth_retry_panics:
  "panicked (snd (handle_auth_retry c hook req resp s)) \<longleftrightarrow>
     panicked s \<or> (resp_body resp = None
       \<and> (case hook (world s) of ((auth, e), _) \<Rightarrow> e = None \<and> auth \<noteq> []))"
  by (auto simp: handle_auth_retry_def Let_def split: prod.split option.split sum.split)

text \<open>A call the breaker counts as failed, and the one result recorded for it.\<close>

definition failed_call :: "do_result \<Rightarrow> bool" where
  "failed_call r \<longleftrightarrow> (case r of (_, Some _) \<Rightarrow> True | (Some resp, None) \<Rightarrow> status_code resp \<ge> 500
     | (None, None) \<Rightarrow> False)"

lemma limit_body_failed [simp]:
  "failed_call (limit_body c r) = failed_call r" "fst (limit_body c r) = None \<longleftrightarrow> fst r = None"
  by (auto simp: limit_body_def failed_call_def split: prod.splits option.splits)

lemma record_result_breaker:
  "breaker (record_result c req r s) =
     (case breaker s of
        None \<Rightarrow> None
      | Some cb \<Rightarrow>
          (if failed_call r then Some (record_failure (hostname (fst (req_url req))) (fst (clock c (world s))) cb)
           else if fst r = None then Some cb
           else Some (record_success (hostname (fst (req_url req))) (fst (clock c (world s))) cb)))"
  by (auto simp: record_result_def failed_call_def Let_def split: option.split prod.split)

lemma do_admitted_breaker:
  assumes "do_admitted c req s = (r, s')"
  shows "breaker s' =
     (case run_request_hooks (request_hooks c) req (world s) of
        ((Some e, _), _) \<Rightarrow> breaker s
      | ((None, req1), w1) \<Rightarrow>
          if from_request c req1 \<noteq> None then breaker s
          else (case retry_do c req1 w1 of
              (r1, w2) \<Rightarrow> breaker (record_result c req1 (limit_body c r1) (s\<lparr>world := w2\<rparr>))))"
  using assms
  by (auto simp: do_admitted_def send_request_def Let_def record_result_breaker
      split: prod.splits option.splits dest!: after_call_frame)

text \<open>
  C12: For an admitted request \<open>Do\<close> records exactly one result on the breaker: a
  failure for an error or a status of 500 and above, a success otherwise, on the host the request
  has after the hooks; and none when a hook or the conversion of the request fails.
\<close>

theorem do_breaker_outcome:
  assumes "admitted c req s (Some cb)"
  shows "breaker (snd (do_request c (Request req) s)) = Some
     (case run_request_hooks (request_hooks c) req (world s) of
        ((Some e, _), _) \<Rightarrow> cb
      | ((None, req1), w1) \<Rightarrow>
          if from_request c req1 \<noteq> None then cb
          else (case retry_do c req1 w1 of
              (r1, w2) \<Rightarrow>
                let host = hostname (fst (req_url req1)); now = fst (clock c w2)
                in if failed_call r1 then record_failure host now cb
                   else if fst r1 = None then cb
                   else record_success host now cb))"
proof -
  obtain r s' where run: "do_request c (Request req) s = (r, s')" by fastforce
  then have "do_admitted c req (s\<lparr>breaker := Some cb\<rparr>) = (r, s')"
  proof (cases rule: do_request_cases)
    case (admitted req' b)
    then show ?thesis using assms by (auto simp: admitted_def split: option.splits prod.splits)
  next
    case (refused e)
    with assms show ?thesis by blast
  qed
  from do_admitted_breaker [OF this] show ?thesis
    by (auto simp: run record_result_breaker Let_def split: prod.split option.split)
qed

theorem do_breaker_outcome_witness:
  "breaker (snd (do_request (example_client [] 500) (Request example_request) example_state)) =
     Some (record_failure ''h'' 11 (snd (allow ''h'' 11 11 example_open)))"
proof -
  have "hostname (fst (req_url example_request)) = ''h''" by code_simp
  then show ?thesis
    unfolding do_breaker_outcome [OF example_admitted [of "[]" 500]]
    by (simp add: example_client_def failed_call_def)
qed

text \<open>
  C31: With \<open>HalfOpenMaxRequests\<close> at most 1, a request whose hook fails and that was
  the probe of a half-open circuit takes its only slot for good: whatever time passes, the breaker
  then refuses every request for the host.
\<close>

theorem failed_hook_leaks_slot:
  assumes ok: "breaker s = Some cb" "breaker_ok cb" and cfg: "half_open_max_requests (cb_config cb) \<le> 1"
    and url: "validate_url (parse_url c) (Some (policy c)) (snd (req_url req)) = None"
    and host: "h = hostname (fst (req_url req))"
    and o: "circuit_of h cb = Open since"
    and t: "since + open_timeout (cb_config cb) \<le> fst (clock c (world s))"
    and hook: "fst (fst (run_request_hooks (request_hooks c) req (world s))) \<noteq> None"
  shows "\<exists>cb'. breaker (snd (do_request c (Request req) s)) = Some cb'
     \<and> (\<forall>es. list_all is_allow es \<longrightarrow> True \<notin> set (answers_of h (fst (run es cb'))))"
proof -
  let ?t = "fst (clock c (world s))" and ?t' = "snd (clock c (world s))"
  obtain rs cb' where st: "step (Allow h ?t ?t') cb = (rs, cb')" by fastforce
  from step_spec [OF ok(2) st, of h] o t
  have cb': "breaker_ok cb'" "cb_config cb' = cb_config cb" "circuit_of h cb' = HalfOpen 0 1"
    "answers_of h rs = [True]" by auto
  from st cb'(4) have "allow h ?t ?t' cb = (None, cb')"
    by (auto simp: answers_of_def split: prod.splits)
  then have "admitted c req s (Some cb')"
    using url ok(1) host by (simp add: admitted_def)
  from do_breaker_outcome [OF this] hook
  have "breaker (snd (do_request c (Request req) s)) = Some cb'"
    by (auto split: prod.split option.split)
  moreover have "True \<notin> set (answers_of h (fst (run es cb')))" if "list_all is_allow es" for es
  proof -
    have "\<forall>e \<in> set (events_of h es). is_allow e"
      using that by (auto simp: events_of_def list_all_iff)
    from half_open_denies [OF cb'(1) surjective_pairing cb'(3) this] cfg cb'(2)
    show ?thesis by simp
  qed
  ultimately show ?thesis by blast
qed

theorem failed_hook_leaks_slot_witness:
  "\<exists>cb'. breaker (snd (do_request (example_client [\<lambda>r w. ((Some (errorf []), r), w)] 200)
        (Request example_request) example_state)) = Some cb'
     \<and> (\<forall>es. list_all is_allow es \<longrightarrow> True \<notin> set (answers_of ''h'' (fst (run es cb'))))"
proof (rule failed_hook_leaks_slot [OF _ example_open(1) _ _ _ example_open(3)])
  show "breaker example_state = Some example_open" by (simp add: example_state_def)
  show "half_open_max_requests (cb_config example_open) \<le> 1"
    by (simp add: example_open(2) example_config_def)
  show "''h'' = hostname (fst (req_url example_request))" by code_simp
  let ?c = "example_client [\<lambda>r w. ((Some (errorf []), r), w)] 200"
  show "validate_url (parse_url ?c) (Some (policy ?c)) (snd (req_url example_request)) = None"
    by code_simp
  show "1 + open_timeout (cb_config example_open) \<le> fst (clock ?c (world example_state))"
    by (simp add: example_open(2) example_config_def example_client_def)
  show "fst (fst (run_request_hooks (request_hooks ?c) example_request (world example_state))) \<noteq> None"
    by code_simp
qed

text \<open>Response hooks that leave the body alone.\<close>

definition keeps_body :: "'w response_hook \<Rightarrow> bool" where
  "keeps_body h \<longleftrightarrow> (\<forall>resp w. resp_body (snd (fst (h resp w))) = resp_body resp)"

lemma run_response_hooks_body:
  "\<forall>h \<in> set hs. keeps_body h \<Longrightarrow> run_response_hooks c m hs resp w = ((e, resp'), w') \<Longrightarrow>
     resp_body resp' = resp_body resp"
proof (induction c m hs resp w rule: run_response_hooks.induct)
  case (2 c m h hs resp w)
  obtain e1 r1 w1 where h: "h resp w = ((e1, r1), w1)" by (metis surj_pair)
  have "resp_body (snd (fst (h resp w))) = resp_body resp" using 2(2) by (simp add: keeps_body_def)
  with h have "resp_body r1 = resp_body resp" by simp
  with 2 h show ?case by (cases e1) auto
qed simp

definition limited :: "'w client \<Rightarrow> response \<Rightarrow> bool" where
  "limited c resp \<longleftrightarrow>
     (case resp_body resp of Some (LimitedBody b n) \<Rightarrow> n = max_response_body_size c
      | Some (RawBody n) \<Rightarrow> False | None \<Rightarrow> True)"

lemma limit_body_limited:
  "max_response_body_size c > 0 \<Longrightarrow> limit_body c r = (Some resp, None) \<Longrightarrow> limited c resp"
  by (auto simp: limit_body_def limited_def split: prod.splits option.splits)

lemma handle_auth_retry_limited:
  assumes "max_response_body_size c > 0" "\<forall>h \<in> set (response_hooks c). keeps_body h"
    and "limited c resp401" and "handle_auth_retry c hook req resp401 s = ((Some resp, None), s')"
  shows "limited c resp"
  using assms limit_body_limited [OF assms(1)] run_response_hooks_body [OF assms(2)]
  by (fastforce simp: handle_auth_retry_def Let_def limited_def
      split: prod.splits option.splits if_splits sum.splits)

lemma after_call_limited:
  assumes "max_response_body_size c > 0" "\<forall>h \<in> set (response_hooks c). keeps_body h"
    and "\<And>resp. r = (Some resp, None) \<Longrightarrow> limited c resp" and "after_call c req r s = ((Some resp, None), s')"
  shows "limited c resp"
proof -
  obtain resp1 e1 where r: "r = (Some resp1, e1)"
    using assms(4) by (cases r) (auto simp: after_call_def split: option.splits)
  obtain e2 resp2 w2 where h: "run_response_hooks c ''response hook failed'' (response_hooks c)
      resp1 (world s) = ((e2, resp2), w2)" by (metis surj_pair)
  have "e1 = None \<Longrightarrow> limited c resp2"
    using assms(3) r run_response_hooks_body [OF assms(2) h] by (simp add: limited_def)
  with assms(4) r h handle_auth_retry_limited [OF assms(1,2)] show ?thesis
    by (auto simp: after_call_def Let_def split: option.splits if_splits)
qed

text \<open>
  C28: With a positive limit and response hooks that keep the body, every response
  \<open>Do\<close> returns without an error, the one of the 401 retry included, reads its body
  through the limiting reader.
\<close>

theorem response_body_limited:
  assumes "max_response_body_size c > 0" and "\<forall>h \<in> set (response_hooks c). keeps_body h"
    and "fst (do_request c i s) = (Some resp, None)" and "resp_body resp = Some b"
  shows "\<exists>b'. b = LimitedBody b' (max_response_body_size c)"
proof -
  obtain s' where run: "do_request c i s = ((Some resp, None), s')"
    using assms(3) by (cases "do_request c i s") auto
  then have "limited c resp"
  proof (cases rule: do_request_cases)
    case (admitted req b)
    then show ?thesis
      using limit_body_limited [OF assms(1)]
      by (auto simp: do_admitted_def send_request_def Let_def split: prod.splits option.splits
          dest: after_call_limited [OF assms(1,2), rotated])
  next
    case (refused e)
    then show ?thesis by simp
  qed
  with assms(4) show ?thesis by (cases b) (auto simp: limited_def)
qed

theorem response_body_limited_witness:
  "\<exists>b'. LimitedBody (RawBody 1) 100 = LimitedBody b' (max_response_body_size (example_client [] 401))"
  by (rule response_body_limited [where i = "Request example_request" and s = example_state
        and resp = "\<lparr>status_code = 401, resp_body = Some (LimitedBody (RawBody 1) 100)\<rparr>"])
    (simp add: example_client_def, simp add: example_client_def, code_simp, simp)

text \<open>The requests the redirect loop makes.\<close>

lemma follow_visits:
  assumes "follow parse p n redirect_of via raw = (visited, e)"
  shows "(\<exists>rest. visited = via @ raw # rest \<and> (\<forall>u \<in> set rest. validate_url parse (Some p) u = None))
    \<and> (int (length via) < redirect_limit n \<longrightarrow> int (length visited) \<le> redirect_limit n)
    \<and> (case redirect_of visited of
         None \<Rightarrow> e = None
       | Some u \<Rightarrow> e \<noteq> None
           \<and> (redirect_limit n \<le> int (length visited) \<or> validate_url parse (Some p) u \<noteq> None))"
  using assms
proof (induction parse p n redirect_of via raw rule: follow.induct)
  case (1 parse p n redirect_of via raw)
  show ?case
  proof (cases "redirect_of (via @ [raw])")
    case None
    with 1(2) show ?thesis by (auto simp: follow.simps [of parse p n redirect_of via])
  next
    case (Some raw')
    show ?thesis
    proof (cases "check_redirect parse p n (via @ [raw]) raw'")
      case None
      then have "validate_url parse (Some p) raw' = None" "int (length via) + 1 < redirect_limit n"
        by (auto simp: check_redirect_def split: if_splits)
      with 1(1) [OF Some None] 1(2) Some None show ?thesis
        by (simp add: follow.simps [of parse p n redirect_of via]) auto
    next
      case c: (Some e')
      then have "redirect_limit n \<le> int (length (via @ [raw])) \<or> validate_url parse (Some p) raw' \<noteq> None"
        by (auto simp: check_redirect_def split: if_splits)
      moreover have "visited = via @ [raw]" "e = Some e'"
        using c Some 1(2) by (simp_all add: follow.simps [of parse p n redirect_of via])
      ultimately show ?thesis using Some by auto
    qed
  qed
qed

text \<open>
  C27: Following redirects ends, whatever the servers answer to the requests made so far: at most
  \<open>MaxRedirects\<close> requests are made, 10 where that is not positive, and each redirect
  target was accepted by the policy. It ends with an error exactly if the last answer was a
  redirect, and then because that many requests were made or the policy denies the target.
\<close>

theorem redirects_guarded:
  "case follow parse p n redirect_of [] raw of (visited, e) \<Rightarrow>
     hd visited = raw \<and> int (length visited) \<le> (if n \<le> 0 then 10 else n)
     \<and> list_all (\<lambda>u. validate_url parse (Some p) u = None) (tl visited)
     \<and> (case redirect_of visited of
          None \<Rightarrow> e = None
        | Some u \<Rightarrow> e \<noteq> None
            \<and> (if validate_url parse (Some p) u = None
               then int (length visited) = (if n \<le> 0 then 10 else n) else True))"
proof -
  obtain visited e where f: "follow parse p n redirect_of [] raw = (visited, e)" by fastforce
  have "redirect_limit n = (if n \<le> 0 then 10 else n)"
    by (simp add: redirect_limit_def default_max_redirects_def)
  with follow_visits [OF f] f show ?thesis
    by (auto simp: list_all_iff split: option.splits if_splits)
qed

end
