(* ===== verification/ClientSetup.thy ===== *)
theory ClientSetup
  imports Retry Compression MemoryCache FileCache Fingerprint ClientDo Defaults
begin

text \<open>
  How a client is put together (\<open>client.go\<close>): its configuration, the retrying client, the cache
  backend and the stack of transports. Libraries appear as parameters: the default retry policy,
  the memory cache, the wrapper of OpenTelemetry and the caching transport.
\<close>

section \<open>Configuration\<close>

text \<open>
  The two cache types are strings in the code, so a configuration can hold any other string; nil
  functions and pointers are \<open>None\<close>. \<open>logger_sink\<close> tells whether the logger has a sink. The
  error handler only passes through the set-up and has the type \<open>'h\<close>; \<open>'w\<close> is the world the
  functions act on and \<open>'b\<close> a transport that is not an \<open>http.Transport\<close>.
\<close>

definition cache_type_memory :: string where "cache_type_memory = ''memory''"
definition cache_type_filesystem :: string where "cache_type_filesystem = ''filesystem''"

record ('w, 'b, 'h) client_config =
  timeout :: duration
  retry_max :: int
  retry_wait_min :: duration
  retry_wait_max :: duration
  enable_cache :: bool
  cache_type :: string
  cache_dir :: string
  cache_ttl :: duration
  cache_key_prefix :: string
  max_cache_file_size :: int
  memory_cache_size :: int
  logger_sink :: bool
  check_retry :: "'w check_retry option"
  backoff :: "(int64 \<Rightarrow> int64 option) option"
  cfg_error_handler :: "'h option"
  cfg_request_hooks :: "'w request_hook list"
  cfg_response_hooks :: "'w response_hook list"
  cfg_on_unauthorized :: "('w \<Rightarrow> (string \<times> go_err option) \<times> 'w) option"
  enable_circuit_breaker :: bool
  circuit_breaker_config :: "breaker_config option"
  enable_compression :: bool
  cfg_metrics :: "'w metrics option"
  allow_private_ips :: bool
  cfg_ip_policy :: "ip_policy option"
  max_redirects :: int
  cfg_max_response_body_size :: int
  cfg_transport :: "'b round_tripper option"

definition default_config :: "string \<Rightarrow> ('w, 'b, 'h) client_config" where
  "default_config dir =
     \<lparr>timeout = default_timeout, retry_max = default_retry_max, retry_wait_min = default_retry_wait,
      retry_wait_max = default_retry_max_wait, enable_cache = True, cache_type = cache_type_filesystem,
      cache_dir = dir, cache_ttl = default_cache_ttl, cache_key_prefix = default_cache_key_prefix,
      max_cache_file_size = default_max_cache_file_size, memory_cache_size = default_memory_cache_size,
      logger_sink = False, check_retry = None, backoff = None, cfg_error_handler = None,
      cfg_request_hooks = [], cfg_response_hooks = [], cfg_on_unauthorized = None,
      enable_circuit_breaker = False,
      circuit_breaker_config = Some default_circuit_breaker_config, enable_compression = True,
      cfg_metrics = Some noop_metrics, allow_private_ips = False, cfg_ip_policy = None,
      max_redirects = default_max_redirects,
      cfg_max_response_body_size = default_max_response_body_size, cfg_transport = None\<rparr>"

definition config_ip_policy :: "('w, 'b, 'h) client_config \<Rightarrow> ip_policy" where
  "config_ip_policy c = resolve_ip_policy (cfg_ip_policy c) (allow_private_ips c)"

section \<open>Caches\<close>

datatype 's cache_store = FileStore file_cache | MemoryStore "'s memory_cache"

text \<open>
  What the set-up calls outside the package: \<open>memory_base\<close> is \<open>httpcache.MemoryCache\<close>, the
  others are those of \<open>new_file_cache\<close> and the default directory.
\<close>

record ('w, 's, 'b) outside =
  memory_base :: "int \<Rightarrow> duration \<Rightarrow> 's"
  expand_dir :: "string \<Rightarrow> go_err + string"
  make_dir :: "string \<Rightarrow> go_err + disk"
  setup_env :: io_env
  default_dir :: string
  sha_hex :: "string \<Rightarrow> string"
  url_parse :: url_parser
  dns_lookup :: "string \<Rightarrow> go_err + ip list"
  net_dialer :: dialer
  default_transport :: "'b round_tripper"
  retry_transport :: "'b round_tripper option"
  default_retry_policy :: "'w check_retry"

definition new_memory_cache ::
    "('w, 's, 'b) outside \<Rightarrow> ('w, 'b, 'h) client_config \<Rightarrow> 's memory_cache" where
  "new_memory_cache out c =
     (let cache_size = memory_cache_size c;
          cache_size = (if cache_size \<le> 0 then default_memory_cache_size else cache_size)
      in new_metrics_memory_cache (memory_base out cache_size (cache_ttl c)))"

definition cache_prefix ::
    "('w, 's, 'b) outside \<Rightarrow> ('w, 'b, 'h) client_config \<Rightarrow> ip_policy option \<Rightarrow> string" where
  "cache_prefix out c p = cache_key_prefix c @ ''-'' @ fingerprint (sha_hex out) p"

definition new_cache ::
    "('w, 's, 'b) outside \<Rightarrow> ('w, 'b, 'h) client_config \<Rightarrow> ip_policy option \<Rightarrow> 's cache_store" where
  "new_cache out c p =
     (if cache_type c = cache_type_filesystem
      then
        (let dir = (if cache_dir c = [] then default_dir out else cache_dir c)
         in case new_file_cache (expand_dir out) (make_dir out) (setup_env out)
             (Some \<lparr>cfg_dir = dir, cfg_ttl = cache_ttl c, cfg_key_prefix = cache_prefix out c p,
                cfg_max_size = max_cache_file_size c, cfg_io_timeout = 0\<rparr>) of
              Inl e \<Rightarrow> MemoryStore (new_memory_cache out c)
            | Inr fc \<Rightarrow> FileStore fc)
      else MemoryStore (new_memory_cache out c))"

section \<open>Transports\<close>

text \<open>The stack of transports of a client, the outermost first.\<close>

datatype 'b stack =
    PolicyBase "'b base_transport"
  | OtelLayer "'b stack"
  | MetricsLayer "'b stack"
  | CompressionLayer int "'b stack"
  | CacheLayer duration "'b stack"

definition wrap_transport :: "'b stack \<Rightarrow> ('w, 'b, 'h) client_config \<Rightarrow> 'b stack" where
  "wrap_transport base c =
     (let t = MetricsLayer base
      in if enable_compression c then CompressionLayer (cfg_max_response_body_size c) t else t)"

text \<open>The fields of \<open>retryablehttp.Client\<close> and of its \<open>HTTPClient\<close> that the set-up writes.\<close>

record ('w, 'b, 'h) retry_client =
  rc_retry_max :: int
  rc_retry_wait_min :: duration
  rc_retry_wait_max :: duration
  rc_check_retry :: "'w check_retry"
  rc_backoff :: "(int64 \<Rightarrow> int64 option) option"
  rc_error_handler :: "'h option"
  rc_logger :: bool
  rc_transport :: "'b stack"
  rc_timeout :: duration
  rc_check_redirect :: "string list \<Rightarrow> string \<Rightarrow> go_err option"

definition new_retry_client ::
    "('w, 's, 'b) outside \<Rightarrow> ('w, 'b, 'h) client_config \<Rightarrow> 'w metrics
      \<Rightarrow> ('w, 'b, 'h) retry_client \<times> clone_transport option" where
  "new_retry_client out c m =
     (let p = config_ip_policy c;
          base = new_base_transport (net_dialer out) (url_parse out) (dns_lookup out)
            (default_transport out) (cfg_transport c) p (retry_transport out)
      in (\<lparr>rc_retry_max = retry_max c, rc_retry_wait_min = retry_wait_min c,
           rc_retry_wait_max = retry_wait_max c,
           rc_check_retry =
             (case check_retry c of
                Some f \<Rightarrow> wrap_check_retry (Some f) (default_retry_policy out) m
              | None \<Rightarrow> wrap_check_retry (Some (default_retry_policy out)) (default_retry_policy out) m),
           rc_backoff = backoff c, rc_error_handler = cfg_error_handler c, rc_logger = logger_sink c,
           rc_transport = OtelLayer (PolicyBase base), rc_timeout = 0,
           rc_check_redirect = check_redirect (url_parse out) p (max_redirects c)\<rparr>,
          idle_closer base))"

text \<open>
  The result has the retrying client, the \<open>Timeout\<close> of the standard client on top of it, and the
  cache. A timeout of 0 is none, which is what \<open>StandardClient\<close> starts with.
\<close>

definition setup_transport ::
    "('w, 's, 'b) outside \<Rightarrow> ('w, 'b, 'h) retry_client \<Rightarrow> ('w, 'b, 'h) client_config \<Rightarrow> ip_policy
      \<Rightarrow> ('w, 'b, 'h) retry_client \<times> duration \<times> 's cache_store option" where
  "setup_transport out rc c p =
     (if enable_cache c
      then
        (let cache = new_cache out c (Some p);
             final_transport = wrap_transport (rc_transport rc) c
         in (rc\<lparr>rc_transport := CacheLayer (cache_ttl c) final_transport, rc_timeout := timeout c\<rparr>, 0, Some cache))
      else
        (rc\<lparr>rc_timeout := timeout c, rc_transport := wrap_transport (rc_transport rc) c\<rparr>, timeout c, None))"

record ('w, 's, 'b, 'h) http_client =
  hc_retry :: "('w, 'b, 'h) retry_client"
  hc_config :: "('w, 'b, 'h) client_config"
  hc_cache :: "'s cache_store option"
  hc_breaker :: "circuit_breaker option"
  hc_metrics :: "'w metrics"
  hc_idle_closer :: "clone_transport option"
  hc_std_timeout :: duration

definition new_client ::
    "('w, 's, 'b) outside \<Rightarrow> ('w, 'b, 'h) client_config option \<Rightarrow> ('w, 's, 'b, 'h) http_client" where
  "new_client out config =
     (let c = (case config of None \<Rightarrow> default_config (default_dir out) | Some c \<Rightarrow> c);
          m = metrics_or_noop (cfg_metrics c)
      in case new_retry_client out c m of
           (rc, idle) \<Rightarrow>
             (case setup_transport out rc c (config_ip_policy c) of
                (rc', std_timeout, cache) \<Rightarrow>
                  \<lparr>hc_retry = rc', hc_config = c, hc_cache = cache,
                   hc_breaker =
                     (if enable_circuit_breaker c
                      then Some (new_circuit_breaker (circuit_breaker_config c)) else None),
                   hc_metrics = m, hc_idle_closer = idle, hc_std_timeout = std_timeout\<rparr>))"

text \<open>
  The two clients the accessors hand out: the standard one by its timeout over the retrying one.
\<close>

definition standard_client ::
    "('w, 's, 'b, 'h) http_client \<Rightarrow> duration \<times> ('w, 'b, 'h) retry_client" where
  "standard_client hc = (hc_std_timeout hc, hc_retry hc)"

definition retryable_client :: "('w, 's, 'b, 'h) http_client \<Rightarrow> ('w, 'b, 'h) retry_client" where
  "retryable_client hc = hc_retry hc"

text \<open>
  \<open>retryableLogger\<close>, the logger of the retrying client where the configuration has one: the calls
  of \<open>LeveledLogger\<close> and what they become on \<open>logr\<close>, an error without a value or an
  information at a verbosity.
\<close>

datatype 'a leveled_call =
    LeveledError string "'a list" | LeveledInfo string "'a list"
  | LeveledDebug string "'a list" | LeveledWarn string "'a list"

datatype 'a logr_call = LogrError string "'a list" | LogrInfo nat string "'a list"

fun retryable_logger :: "'a leveled_call \<Rightarrow> 'a logr_call" where
  "retryable_logger (LeveledError t kv) = LogrError t kv"
| "retryable_logger (LeveledInfo t kv) = LogrInfo 0 t kv"
| "retryable_logger (LeveledDebug t kv) = LogrInfo 1 t kv"
| "retryable_logger (LeveledWarn t kv) = LogrInfo 0 t kv"

text \<open>
  The client as the request pipeline sees it: what the pipeline reads of the configuration, over
  the functions of the layers below.
\<close>

definition pipeline :: "('w, 's, 'b) outside \<Rightarrow> ('w, 's, 'b, 'h) http_client \<Rightarrow> 'w client \<Rightarrow> 'w client" where
  "pipeline out hc lower =
     lower\<lparr>parse_url := url_parse out, conf_ip_policy := cfg_ip_policy (hc_config hc),
       conf_allow_private_ips := allow_private_ips (hc_config hc),
       request_hooks := cfg_request_hooks (hc_config hc),
       response_hooks := cfg_response_hooks (hc_config hc),
       on_unauthorized := cfg_on_unauthorized (hc_config hc),
       max_response_body_size := cfg_max_response_body_size (hc_config hc)\<rparr>"

section \<open>Enforcement\<close>

fun innermost :: "'b stack \<Rightarrow> 'b base_transport" where
  "innermost (PolicyBase b) = b"
| "innermost (OtelLayer s) = innermost s"
| "innermost (MetricsLayer s) = innermost s"
| "innermost (CompressionLayer n s) = innermost s"
| "innermost (CacheLayer t s) = innermost s"

text \<open>
  How a client connects for one attempt at a request: through the hooks of its clone, or, after the
  check of the URL, however \<open>other\<close> does for the transport it could not clone. The result has the
  connection, the proxy in use and the verdict cache.
\<close>

definition client_connect ::
    "('w, 's, 'b) outside \<Rightarrow> ('b round_tripper \<Rightarrow> request_url \<Rightarrow> conn option \<times> go_err option)
      \<Rightarrow> (url \<Rightarrow> string) \<Rightarrow> ('w, 's, 'b, 'h) http_client \<Rightarrow> request_url \<Rightarrow> instant \<Rightarrow> target_cache
      \<Rightarrow> (conn option \<times> go_err option) \<times> url option \<times> target_cache" where
  "client_connect out other addr_of hc req now cache =
     (case innermost (rc_transport (hc_retry hc)) of
        MarkingTransport tr \<Rightarrow>
          (case marking_connect (net_dialer out) tr addr_of req now cache of
             ((r, _), via, _, cache') \<Rightarrow> (r, via, cache'))
      | URLPolicyTransport b p \<Rightarrow>
          (url_policy_round_trip (url_parse out) (dns_lookup out) p (other b) req, None, cache))"

text \<open>
  A base transport that enforces a policy: dial hooks made for that policy, or the check of every
  URL against it.
\<close>

definition enforces :: "('w, 's, 'b) outside \<Rightarrow> ip_policy \<Rightarrow> 'b base_transport \<Rightarrow> bool" where
  "enforces out p b \<longleftrightarrow>
     (case b of
        MarkingTransport t \<Rightarrow> (\<exists>t0. t = policy_transport (net_dialer out) (url_parse out) (dns_lookup out) t0 p)
      | URLPolicyTransport _ q \<Rightarrow> q = p)"

lemma pipeline_policy: "policy (pipeline out hc lower) = config_ip_policy (hc_config hc)"
  by (simp add: pipeline_def policy_def config_ip_policy_def)

lemma new_base_transport_enforces:
  "enforces out p (new_base_transport (net_dialer out) (url_parse out) (dns_lookup out) dt ct p fb)"
  by (auto simp: new_base_transport_def enforces_def split: option.split round_tripper.split)

lemma new_base_transport_default:
  "new_base_transport d parse dl dt None p fb =
     (case dt of
        HttpTransport t \<Rightarrow> MarkingTransport (policy_transport d parse dl t p)
      | OtherTripper b \<Rightarrow> URLPolicyTransport (case fb of Some f \<Rightarrow> f | None \<Rightarrow> OtherTripper b) p)"
  by (simp add: new_base_transport_def split: option.split round_tripper.split)

lemma wrap_transport_innermost [simp]: "innermost (wrap_transport s c) = innermost s"
  by (simp add: wrap_transport_def Let_def)

lemma setup_transport_fields:
  assumes "setup_transport out rc c p = (rc', st, cache)"
  shows "innermost (rc_transport rc') = innermost (rc_transport rc)"
    and "rc_check_redirect rc' = rc_check_redirect rc" and "rc_check_retry rc' = rc_check_retry rc"
    and "cache = (if enable_cache c then Some (new_cache out c (Some p)) else None)"
  using assms by (auto simp: setup_transport_def Let_def split: if_splits)

definition config_of :: "('w, 's, 'b) outside \<Rightarrow> ('w, 'b, 'h) client_config option \<Rightarrow> ('w, 'b, 'h) client_config" where
  "config_of out config = (case config of None \<Rightarrow> default_config (default_dir out) | Some c \<Rightarrow> c)"

lemma new_client_fields:
  "hc_config (new_client out config) = config_of out config"
  "hc_cache (new_client out config) =
     (if enable_cache (config_of out config)
      then Some (new_cache out (config_of out config) (Some (config_ip_policy (config_of out config))))
      else None)"
  "hc_std_timeout (new_client out config) =
     (if enable_cache (config_of out config) then 0 else timeout (config_of out config))"
  "rc_timeout (hc_retry (new_client out config)) = timeout (config_of out config)"
  "hc_breaker (new_client out config) =
     (if enable_circuit_breaker (config_of out config)
      then Some (new_circuit_breaker (circuit_breaker_config (config_of out config))) else None)"
  by (simp_all add: new_client_def config_of_def Let_def setup_transport_def split: prod.split)

lemma new_file_cache_fields:
  assumes "new_file_cache ex mk env (Some cfg) = Inr fc"
  shows "fc_key_prefix fc = cfg_key_prefix cfg \<and> fc_ttl fc = cfg_ttl cfg \<and> fc_max_size fc = cfg_max_size cfg"
  using assms
  by (auto simp: new_file_cache_def update_cache_size_metric_def Let_def split: if_splits sum.splits)

lemma new_cache_prefix: "new_cache out c p = FileStore fc \<Longrightarrow> fc_key_prefix fc = cache_prefix out c p"
  by (auto simp: new_cache_def Let_def split: if_splits sum.splits dest!: new_file_cache_fields)

lemma idle_closer_Some: "idle_closer b = Some t \<longleftrightarrow> b = MarkingTransport t"
  by (cases b) (auto simp: idle_closer_def)

lemma new_retry_client_fields:
  assumes "new_retry_client out c m = (rc, idle)"
  shows "enforces out (config_ip_policy c) (innermost (rc_transport rc))"
    and "rc_check_redirect rc = check_redirect (url_parse out) (config_ip_policy c) (max_redirects c)"
    and "idle = idle_closer (innermost (rc_transport rc))"
    and "innermost (rc_transport rc) = new_base_transport (net_dialer out) (url_parse out) (dns_lookup out)
      (default_transport out) (cfg_transport c) (config_ip_policy c) (retry_transport out)"
  using assms by (auto simp: new_retry_client_def Let_def new_base_transport_enforces)

lemma new_client_retry:
  obtains rc m where "new_retry_client out (config_of out config) m = (rc, hc_idle_closer (new_client out config))"
    "innermost (rc_transport (hc_retry (new_client out config))) = innermost (rc_transport rc)"
    "rc_check_redirect (hc_retry (new_client out config)) = rc_check_redirect rc"
proof -
  let ?c = "config_of out config"
  let ?m = "metrics_or_noop (cfg_metrics ?c)"
  obtain rc idle where r: "new_retry_client out ?c ?m = (rc, idle)" by fastforce
  obtain rc' st cache where s: "setup_transport out rc ?c (config_ip_policy ?c) = (rc', st, cache)"
    by (metis surj_pair)
  have "hc_idle_closer (new_client out config) = idle" "hc_retry (new_client out config) = rc'"
    using r s by (simp_all add: new_client_def config_of_def [symmetric] Let_def)
  with r setup_transport_fields [OF s] show ?thesis by (intro that) auto
qed

lemma new_client_innermost:
  "innermost (rc_transport (hc_retry (new_client out config))) =
     new_base_transport (net_dialer out) (url_parse out) (dns_lookup out) (default_transport out)
       (cfg_transport (config_of out config)) (config_ip_policy (config_of out config)) (retry_transport out)"
  using new_client_retry [of out config] new_retry_client_fields(4) by metis

text \<open>
  The connections of a client that has no transport of the caller's: those the hooks on the default
  transport let through, or, where that has none, those for URLs that pass the resolved check.
\<close>

lemma client_connect_guarded:
  assumes "cfg_transport (config_of out config) = None"
    and d: "dialer_honours_control own (net_dialer out)"
    and run: "client_connect out other addr_of (new_client out config) req now cache = ((Some c, None), via, cache')"
    and p: "p = config_ip_policy (config_of out config)"
  shows "case default_transport out of
      HttpTransport t \<Rightarrow>
        (case via of
           Some proxy_url \<Rightarrow>
             fst (validate_proxied_target (url_parse out) (dns_lookup out) p req now cache) = None
         | None \<Rightarrow> peer_guarded own t p c)
    | OtherTripper b \<Rightarrow> validate_url_resolved (url_parse out) (dns_lookup out) (Some p) (snd req) = None"
proof (cases "default_transport out")
  case (HttpTransport t)
  let ?tr = "policy_transport (net_dialer out) (url_parse out) (dns_lookup out) t p"
  have "innermost (rc_transport (hc_retry (new_client out config))) = MarkingTransport ?tr"
    using assms(1) HttpTransport p by (simp add: new_client_innermost new_base_transport_default)
  with run obtain cl m where
    "marking_connect (net_dialer out) ?tr addr_of req now cache = (((Some c, None), cl), via, m, cache')"
    by (auto simp: client_connect_def split: prod.splits)
  from marking_connect_guarded [OF d this] HttpTransport show ?thesis by simp
next
  case (OtherTripper b)
  then obtain b' where "innermost (rc_transport (hc_retry (new_client out config))) = URLPolicyTransport b' p"
    using assms(1) p by (simp add: new_client_innermost new_base_transport_default)
  with run OtherTripper show ?thesis
    by (auto simp: client_connect_def url_policy_round_trip_def split: option.splits)
qed

section \<open>Properties\<close>

text \<open>
  C3: In every client \<open>NewClient\<close> builds, one policy is used throughout: the dial
  hooks or URL checks of the innermost transport, the redirect check, the checks of
  \<open>Do\<close> and the prefix of the filesystem cache are all made for the policy of the
  configuration, and \<open>Close\<close> closes only the connections of a transport the client
  owns.
\<close>

theorem client_enforces_policy:
  "let hc = new_client out config; p = config_ip_policy (hc_config hc)
   in enforces out p (innermost (rc_transport (hc_retry hc)))
      \<and> rc_check_redirect (hc_retry hc) = check_redirect (url_parse out) p (max_redirects (hc_config hc))
      \<and> policy (pipeline out hc lower) = p
      \<and> (case hc_cache hc of
           Some (FileStore fc) \<Rightarrow> fc_key_prefix fc = cache_prefix out (hc_config hc) (Some p)
         | _ \<Rightarrow> True)
      \<and> (case hc_idle_closer hc of
           Some t \<Rightarrow> innermost (rc_transport (hc_retry hc)) = MarkingTransport t
         | None \<Rightarrow> True)"
proof -
  let ?hc = "new_client out config"
  obtain rc m where r: "new_retry_client out (config_of out config) m = (rc, hc_idle_closer ?hc)"
    "innermost (rc_transport (hc_retry ?hc)) = innermost (rc_transport rc)"
    "rc_check_redirect (hc_retry ?hc) = rc_check_redirect rc"
    by (rule new_client_retry)
  have "case hc_idle_closer ?hc of
      Some t \<Rightarrow> innermost (rc_transport (hc_retry ?hc)) = MarkingTransport t | None \<Rightarrow> True"
    using new_retry_client_fields(3) [OF r(1)] r(2) idle_closer_Some
    by (auto split: option.split)
  moreover have "case hc_cache ?hc of
      Some (FileStore fc) \<Rightarrow>
        fc_key_prefix fc = cache_prefix out (hc_config ?hc) (Some (config_ip_policy (hc_config ?hc)))
    | _ \<Rightarrow> True"
    by (auto simp: new_client_fields dest!: new_cache_prefix split: cache_store.split)
  ultimately show ?thesis
    using new_retry_client_fields(1,2) [OF r(1)] r(2,3)
    by (simp add: Let_def new_client_fields pipeline_policy)
qed

end
