(* ===== verification/AppConfig.thy ===== *)
theory AppConfig
  imports ClientSetup PolicyProps
begin

text \<open>
  Configuration files (\<open>appconfig.go\<close>): \<open>AppConfig\<close>, \<open>NewClientFromAppConfig\<close> up to the
  call of \<open>NewClient\<close>, and \<open>MergeAppConfig\<close>. \<open>time.ParseDuration\<close> is a parameter, because it
  computes fractions in floating point; nothing below depends on what it accepts.
\<close>

section \<open>The configuration\<close>

text \<open>
  A pointer to a bool and a slice are options, with \<open>None\<close> for nil, so an empty list of CIDRs
  differs from an absent one. An empty text and a number that is not positive mean unset.
\<close>

record app_config =
  a_timeout :: string
  a_retry_max :: int
  a_retry_wait_min :: string
  a_retry_wait_max :: string
  a_enable_cache :: "bool option"
  a_cache_type :: string
  a_cache_dir :: string
  a_cache_ttl :: string
  a_cache_key_prefix :: string
  a_max_cache_file_size :: int
  a_memory_cache_size :: int
  a_enable_circuit_breaker :: "bool option"
  a_circuit_breaker_max_failures :: int
  a_circuit_breaker_open_timeout :: string
  a_circuit_breaker_half_open_max_requests :: int
  a_enable_compression :: "bool option"
  a_allow_private_ips :: "bool option"
  a_allowed_private_cidrs :: "string list option"
  a_trust_proxy_resolution :: "bool option"
  a_max_response_body_size :: int

section \<open>Merging\<close>

definition merge_text :: "string \<Rightarrow> string \<Rightarrow> string" where
  "merge_text base over = (if over \<noteq> [] then over else base)"

definition merge_num :: "int \<Rightarrow> int \<Rightarrow> int" where
  "merge_num base over = (if over > 0 then over else base)"

definition merge_ptr :: "'a option \<Rightarrow> 'a option \<Rightarrow> 'a option" where
  "merge_ptr base over = (if over \<noteq> None then over else base)"

definition merge_app_config :: "app_config option \<Rightarrow> app_config option \<Rightarrow> app_config option" where
  "merge_app_config base over =
     (case over of
        None \<Rightarrow> base
      | Some r \<Rightarrow>
          (case base of
             None \<Rightarrow> Some r
           | Some b \<Rightarrow>
               Some (b\<lparr>
                 a_timeout := merge_text (a_timeout b) (a_timeout r),
                 a_retry_max := merge_num (a_retry_max b) (a_retry_max r),
                 a_retry_wait_min := merge_text (a_retry_wait_min b) (a_retry_wait_min r),
                 a_retry_wait_max := merge_text (a_retry_wait_max b) (a_retry_wait_max r),
                 a_enable_cache := merge_ptr (a_enable_cache b) (a_enable_cache r),
                 a_cache_type := merge_text (a_cache_type b) (a_cache_type r),
                 a_cache_dir := merge_text (a_cache_dir b) (a_cache_dir r),
                 a_cache_ttl := merge_text (a_cache_ttl b) (a_cache_ttl r),
                 a_cache_key_prefix := merge_text (a_cache_key_prefix b) (a_cache_key_prefix r),
                 a_max_cache_file_size := merge_num (a_max_cache_file_size b) (a_max_cache_file_size r),
                 a_memory_cache_size := merge_num (a_memory_cache_size b) (a_memory_cache_size r),
                 a_enable_circuit_breaker :=
                   merge_ptr (a_enable_circuit_breaker b) (a_enable_circuit_breaker r),
                 a_circuit_breaker_max_failures :=
                   merge_num (a_circuit_breaker_max_failures b) (a_circuit_breaker_max_failures r),
                 a_circuit_breaker_open_timeout :=
                   merge_text (a_circuit_breaker_open_timeout b) (a_circuit_breaker_open_timeout r),
                 a_circuit_breaker_half_open_max_requests :=
                   merge_num (a_circuit_breaker_half_open_max_requests b)
                     (a_circuit_breaker_half_open_max_requests r),
                 a_enable_compression := merge_ptr (a_enable_compression b) (a_enable_compression r),
                 a_allow_private_ips := merge_ptr (a_allow_private_ips b) (a_allow_private_ips r),
                 a_allowed_private_cidrs :=
                   merge_ptr (a_allowed_private_cidrs b) (a_allowed_private_cidrs r),
                 a_trust_proxy_resolution :=
                   merge_ptr (a_trust_proxy_resolution b) (a_trust_proxy_resolution r),
                 a_max_response_body_size :=
                   merge_num (a_max_response_body_size b) (a_max_response_body_size r)\<rparr>)))"

section \<open>From a file to a client configuration\<close>

text \<open>
  The steps of \<open>NewClientFromAppConfig\<close>, in order; each may end the function with an error.
\<close>

type_synonym duration_parser = "string \<Rightarrow> go_err + duration"
type_synonym ('w, 'b, 'h) config_step =
  "app_config \<Rightarrow> ('w, 'b, 'h) client_config \<Rightarrow> go_err + ('w, 'b, 'h) client_config"

definition set_duration ::
    "duration_parser \<Rightarrow> string \<Rightarrow> string \<Rightarrow> (duration \<Rightarrow> 'c \<Rightarrow> 'c) \<Rightarrow> 'c \<Rightarrow> go_err + 'c" where
  "set_duration parse m text upd c =
     (if text \<noteq> []
      then (case parse text of Inl e \<Rightarrow> Inl (errorf_w m e) | Inr d \<Rightarrow> Inr (upd d c))
      else Inr c)"

definition and_then :: "go_err + 'a \<Rightarrow> ('a \<Rightarrow> go_err + 'c) \<Rightarrow> go_err + 'c" where
  "and_then r f = (case r of Inl e \<Rightarrow> Inl e | Inr c \<Rightarrow> f c)"

definition set_if :: "bool \<Rightarrow> ('c \<Rightarrow> 'c) \<Rightarrow> 'c \<Rightarrow> 'c" where
  "set_if b f c = (if b then f c else c)"

definition set_ptr :: "'a option \<Rightarrow> ('a \<Rightarrow> 'c \<Rightarrow> 'c) \<Rightarrow> 'c \<Rightarrow> 'c" where
  "set_ptr x f c = (case x of None \<Rightarrow> c | Some v \<Rightarrow> f v c)"

definition apply_retry :: "duration_parser \<Rightarrow> ('w, 'b, 'h) config_step" where
  "apply_retry parse a c =
     and_then (set_duration parse ''invalid timeout duration'' (a_timeout a) (\<lambda>d. timeout_update (\<lambda>_. d)) c) (\<lambda>c.
     and_then
       (set_duration parse ''invalid retryWaitMin duration'' (a_retry_wait_min a)
         (\<lambda>d. retry_wait_min_update (\<lambda>_. d))
         (set_if (a_retry_max a > 0) (retry_max_update (\<lambda>_. a_retry_max a)) c)) (\<lambda>c.
     set_duration parse ''invalid retryWaitMax duration'' (a_retry_wait_max a)
         (\<lambda>d. retry_wait_max_update (\<lambda>_. d)) c))"

definition apply_cache :: "duration_parser \<Rightarrow> ('w, 'b, 'h) config_step" where
  "apply_cache parse a c =
     (let c = set_ptr (a_enable_cache a) (\<lambda>b. enable_cache_update (\<lambda>_. b)) c
      in if a_cache_type a \<noteq> [] \<and> a_cache_type a \<noteq> cache_type_memory
            \<and> a_cache_type a \<noteq> cache_type_filesystem
         then Inl (errorf ''invalid cacheType'')
         else
           (let c = set_if (a_cache_type a \<noteq> []) (cache_type_update (\<lambda>_. a_cache_type a)) c;
                c = set_if (a_cache_dir a \<noteq> []) (cache_dir_update (\<lambda>_. a_cache_dir a)) c
            in and_then (set_duration parse ''invalid cacheTTL duration'' (a_cache_ttl a)
                   (\<lambda>d. cache_ttl_update (\<lambda>_. d)) c)
                 (\<lambda>c.
                   (let c = set_if (a_cache_key_prefix a \<noteq> [])
                              (cache_key_prefix_update (\<lambda>_. a_cache_key_prefix a)) c;
                        c = set_if (a_max_cache_file_size a > 0)
                              (max_cache_file_size_update (\<lambda>_. a_max_cache_file_size a)) c;
                        c = set_if (a_memory_cache_size a > 0)
                              (memory_cache_size_update (\<lambda>_. a_memory_cache_size a)) c
                    in Inr c))))"

definition breaker_from :: "duration_parser \<Rightarrow> app_config \<Rightarrow> go_err + breaker_config" where
  "breaker_from parse a =
     and_then
       (set_duration parse ''invalid circuitBreakerOpenTimeout duration'' (a_circuit_breaker_open_timeout a)
         (\<lambda>d. open_timeout_update (\<lambda>_. d))
         (set_if (a_circuit_breaker_max_failures a > 0)
           (max_failures_update (\<lambda>_. a_circuit_breaker_max_failures a)) default_circuit_breaker_config))
       (\<lambda>b. Inr (set_if (a_circuit_breaker_half_open_max_requests a > 0)
         (half_open_max_requests_update (\<lambda>_. a_circuit_breaker_half_open_max_requests a)) b))"

definition apply_breaker :: "duration_parser \<Rightarrow> ('w, 'b, 'h) config_step" where
  "apply_breaker parse a c =
     (let c = set_ptr (a_enable_circuit_breaker a) (\<lambda>b. enable_circuit_breaker_update (\<lambda>_. b)) c
      in if a_circuit_breaker_max_failures a > 0 \<or> a_circuit_breaker_open_timeout a \<noteq> []
            \<or> a_circuit_breaker_half_open_max_requests a > 0
         then and_then (breaker_from parse a) (\<lambda>b. Inr (c\<lparr>circuit_breaker_config := Some b\<rparr>))
         else Inr c)"

definition apply_allowed :: "('w, 'b, 'h) config_step" where
  "apply_allowed a c =
     (case a_allowed_private_cidrs a of
        None \<Rightarrow> Inr c
      | Some cs \<Rightarrow>
          (case new_ip_policy cs of
             Inl e \<Rightarrow> Inl (errorf_w ''invalid allowedPrivateCIDRs'' e)
           | Inr p \<Rightarrow> Inr (c\<lparr>cfg_ip_policy := Some p\<rparr>)))"

definition trust_resolution :: "bool \<Rightarrow> ('w, 'b, 'h) client_config \<Rightarrow> ('w, 'b, 'h) client_config" where
  "trust_resolution b c =
     c\<lparr>cfg_ip_policy := Some ((config_ip_policy c)\<lparr>trust_proxy_resolution := b\<rparr>)\<rparr>"

definition apply_policy :: "('w, 'b, 'h) config_step" where
  "apply_policy a c =
     (let c = set_ptr (a_enable_compression a) (\<lambda>b. enable_compression_update (\<lambda>_. b)) c;
          c = set_ptr (a_allow_private_ips a) (\<lambda>b. allow_private_ips_update (\<lambda>_. b)) c
      in and_then (apply_allowed a c)
           (\<lambda>c.
             (let c = set_ptr (a_trust_proxy_resolution a) trust_resolution c;
                  c = set_if (a_max_response_body_size a > 0)
                        (cfg_max_response_body_size_update (\<lambda>_. a_max_response_body_size a)) c
              in Inr c)))"

definition client_config_from ::
    "duration_parser \<Rightarrow> string \<Rightarrow> app_config option \<Rightarrow> bool \<Rightarrow> go_err + ('w, 'b, 'h) client_config" where
  "client_config_from parse dir cfg sink =
     (let c = (default_config dir)\<lparr>logger_sink := sink\<rparr>
      in case cfg of
           None \<Rightarrow> Inr c
         | Some a \<Rightarrow>
             and_then (apply_retry parse a c) (\<lambda>c.
             and_then (apply_cache parse a c) (\<lambda>c.
             and_then (apply_breaker parse a c) (apply_policy a))))"

definition new_client_from_app_config ::
    "duration_parser \<Rightarrow> ('w, 's, 'b) outside \<Rightarrow> app_config option \<Rightarrow> bool
      \<Rightarrow> go_err + ('w, 's, 'b, 'h) http_client" where
  "new_client_from_app_config parse out cfg sink =
     (case client_config_from parse (default_dir out) cfg sink of
        Inl e \<Rightarrow> Inl e
      | Inr c \<Rightarrow> Inr (new_client out (Some c)))"

section \<open>Facts on merging\<close>

lemma merge_assoc [simp]:
  "merge_text (merge_text x y) z = merge_text x (merge_text y z)"
  "merge_num (merge_num i j) k = merge_num i (merge_num j k)"
  "merge_ptr (merge_ptr p q) r = merge_ptr p (merge_ptr q r)"
  by (auto simp: merge_text_def merge_num_def merge_ptr_def)

lemma merge_self [simp]: "merge_text x x = x" "merge_num i i = i" "merge_ptr p p = p"
  by (auto simp: merge_text_def merge_num_def merge_ptr_def)

lemma merge_app_config_None [simp]:
  "merge_app_config None a = a" "merge_app_config a None = a"
  by (auto simp: merge_app_config_def split: option.split)

lemma merge_app_config_assoc:
  "merge_app_config (merge_app_config a b) c = merge_app_config a (merge_app_config b c)"
proof (cases a; cases b; cases c)
  fix x y z
  assume "a = Some x" "b = Some y" "c = Some z"
  then show ?thesis by (simp add: merge_app_config_def)
qed simp_all

lemma merge_app_config_self: "merge_app_config a a = a"
  by (cases a) (simp_all add: merge_app_config_def)

section \<open>Facts on the steps\<close>

definition bad_duration :: "duration_parser \<Rightarrow> string \<Rightarrow> bool" where
  "bad_duration parse t \<longleftrightarrow> t \<noteq> [] \<and> (case parse t of Inl _ \<Rightarrow> True | Inr _ \<Rightarrow> False)"

definition fails :: "go_err + 'c \<Rightarrow> bool" where
  "fails r \<longleftrightarrow> (case r of Inl _ \<Rightarrow> True | Inr _ \<Rightarrow> False)"

lemma fails_simps [simp]: "fails (Inl e)" "\<not> fails (Inr c)"
  by (simp_all add: fails_def)

lemma fails_and_then: "(\<And>c. fails (f c) \<longleftrightarrow> b) \<Longrightarrow> fails (and_then r f) \<longleftrightarrow> fails r \<or> b"
  by (cases r) (auto simp: and_then_def)

lemma fails_and_then_Inr [simp]: "fails (and_then r (\<lambda>c. Inr (g c))) \<longleftrightarrow> fails r"
  by (cases r) (auto simp: and_then_def)

lemma fails_set_duration [simp]: "fails (set_duration parse m t f c) \<longleftrightarrow> bad_duration parse t"
  by (auto simp: set_duration_def bad_duration_def split: sum.split)

text \<open>A property of every configuration a step may give, with a rule per construct of the steps.\<close>

definition gives :: "go_err + 'c \<Rightarrow> ('c \<Rightarrow> bool) \<Rightarrow> bool" where
  "gives r Q \<longleftrightarrow> (case r of Inl _ \<Rightarrow> True | Inr c \<Rightarrow> Q c)"

lemma gives_Inr [simp]: "gives (Inr c) Q \<longleftrightarrow> Q c" "gives (Inl e) Q"
  by (simp_all add: gives_def)

lemma givesD: "gives r Q \<Longrightarrow> r = Inr c \<Longrightarrow> Q c"
  by simp

lemma gives_and_then: "gives r R \<Longrightarrow> (\<And>c. R c \<Longrightarrow> gives (f c) Q) \<Longrightarrow> gives (and_then r f) Q"
  by (cases r) (simp_all add: and_then_def)

lemma gives_same: "gives r Q \<Longrightarrow> (\<And>c. Q c \<Longrightarrow> gives (f c) Q) \<Longrightarrow> gives (and_then r f) Q"
  by (rule gives_and_then)

lemma gives_if: "(b \<Longrightarrow> gives x Q) \<Longrightarrow> (\<not> b \<Longrightarrow> gives y Q) \<Longrightarrow> gives (if b then x else y) Q"
  by simp

lemma gives_set_duration: "Q c \<Longrightarrow> (\<And>d. Q (f d c)) \<Longrightarrow> gives (set_duration parse m t f c) Q"
  by (simp add: set_duration_def split: sum.split)

lemma set_if_rule: "Q c \<Longrightarrow> (b \<Longrightarrow> Q (f c)) \<Longrightarrow> Q (set_if b f c)"
  by (simp add: set_if_def)

lemma set_ptr_rule: "Q c \<Longrightarrow> (\<And>v. x = Some v \<Longrightarrow> Q (f v c)) \<Longrightarrow> Q (set_ptr x f c)"
  by (cases x) (simp_all add: set_ptr_def)

lemmas step_rules = gives_same gives_set_duration gives_if

text \<open>The steps before the policy leave its fields alone.\<close>

definition policy_fields :: "('w, 'b, 'h) client_config \<Rightarrow> bool \<times> ip_policy option" where
  "policy_fields c = (allow_private_ips c, cfg_ip_policy c)"

lemma set_if_policy [simp]:
  "(\<And>c. policy_fields (f c) = policy_fields c) \<Longrightarrow> policy_fields (set_if b f c) = policy_fields c"
  by (simp add: set_if_def)

lemma set_ptr_policy [simp]:
  "(\<And>v c. policy_fields (f v c) = policy_fields c) \<Longrightarrow> policy_fields (set_ptr x f c) = policy_fields c"
  by (cases x) (simp_all add: set_ptr_def)

lemma policy_fields_updates [simp]:
  "policy_fields (timeout_update f1 c) = policy_fields c"
  "policy_fields (retry_max_update f2 c) = policy_fields c"
  "policy_fields (retry_wait_min_update f1 c) = policy_fields c"
  "policy_fields (retry_wait_max_update f1 c) = policy_fields c"
  "policy_fields (enable_cache_update f3 c) = policy_fields c"
  "policy_fields (cache_type_update f4 c) = policy_fields c"
  "policy_fields (cache_dir_update f4 c) = policy_fields c"
  "policy_fields (cache_ttl_update f1 c) = policy_fields c"
  "policy_fields (cache_key_prefix_update f4 c) = policy_fields c"
  "policy_fields (max_cache_file_size_update f2 c) = policy_fields c"
  "policy_fields (memory_cache_size_update f2 c) = policy_fields c"
  "policy_fields (enable_circuit_breaker_update f3 c) = policy_fields c"
  "policy_fields (circuit_breaker_config_update f5 c) = policy_fields c"
  "policy_fields (enable_compression_update f3 c) = policy_fields c"
  "policy_fields (cfg_max_response_body_size_update f2 c) = policy_fields c"
  by (simp_all add: policy_fields_def)

lemma steps_keep_policy:
  assumes "policy_fields c = k"
  shows "gives (apply_retry parse a c) (\<lambda>c. policy_fields c = k)"
    and "gives (apply_cache parse a c) (\<lambda>c. policy_fields c = k)"
    and "gives (apply_breaker parse a c) (\<lambda>c. policy_fields c = k)"
proof -
  show "gives (apply_retry parse a c) (\<lambda>c. policy_fields c = k)"
    unfolding apply_retry_def by (intro step_rules) (simp_all add: assms)
  show "gives (apply_cache parse a c) (\<lambda>c. policy_fields c = k)"
    unfolding apply_cache_def Let_def by (intro step_rules) (simp_all add: assms)
  have b: "gives (breaker_from parse a) (\<lambda>_. True)" by (simp add: gives_def split: sum.split)
  show "gives (apply_breaker parse a c) (\<lambda>c. policy_fields c = k)"
    unfolding apply_breaker_def Let_def
    by (intro gives_if gives_and_then [OF b]) (simp_all add: assms)
qed

text \<open>Well-formed configurations: what the default has and the steps keep.\<close>

definition breaker_config_ok :: "breaker_config \<Rightarrow> bool" where
  "breaker_config_ok b \<longleftrightarrow> 0 < max_failures b \<and> 0 < half_open_max_requests b"

definition config_ok :: "('w, 'b, 'h) client_config \<Rightarrow> bool" where
  "config_ok c \<longleftrightarrow> cache_type c \<in> {cache_type_memory, cache_type_filesystem}
     \<and> 0 < max_cache_file_size c \<and> 0 < memory_cache_size c \<and> cache_key_prefix c \<noteq> []
     \<and> 0 < retry_max c \<and> 0 < cfg_max_response_body_size c \<and> 0 < max_redirects c
     \<and> cfg_transport c = None
     \<and> (case circuit_breaker_config c of None \<Rightarrow> False | Some b \<Rightarrow> breaker_config_ok b)"

lemma set_if_simps: "set_if False f c = c" "set_if True f c = f c"
  by (simp_all add: set_if_def)

lemma config_ok_set_if [intro]: "config_ok c \<Longrightarrow> (b \<Longrightarrow> config_ok (f c)) \<Longrightarrow> config_ok (set_if b f c)"
  by (simp add: set_if_def)

lemma config_ok_set_ptr [intro]:
  "config_ok c \<Longrightarrow> (\<And>v. config_ok (f v c)) \<Longrightarrow> config_ok (set_ptr x f c)"
  by (cases x) (simp_all add: set_ptr_def)

lemma config_ok_updates [simp]:
  "config_ok (timeout_update f1 c) = config_ok c"
  "config_ok (retry_wait_min_update f1 c) = config_ok c"
  "config_ok (retry_wait_max_update f1 c) = config_ok c"
  "config_ok (enable_cache_update f3 c) = config_ok c"
  "config_ok (cache_dir_update f4 c) = config_ok c"
  "config_ok (cache_ttl_update f1 c) = config_ok c"
  "config_ok (enable_circuit_breaker_update f3 c) = config_ok c"
  "config_ok (enable_compression_update f3 c) = config_ok c"
  "config_ok (allow_private_ips_update f3 c) = config_ok c"
  "config_ok (logger_sink_update f3 c) = config_ok c"
  "config_ok (cfg_ip_policy_update f6 c) = config_ok c"
  by (simp_all add: config_ok_def)

lemma config_ok_numbers:
  "config_ok c \<Longrightarrow> 0 < n \<Longrightarrow> config_ok (retry_max_update (\<lambda>_. n) c)"
  "config_ok c \<Longrightarrow> 0 < n \<Longrightarrow> config_ok (max_cache_file_size_update (\<lambda>_. n) c)"
  "config_ok c \<Longrightarrow> 0 < n \<Longrightarrow> config_ok (memory_cache_size_update (\<lambda>_. n) c)"
  "config_ok c \<Longrightarrow> 0 < n \<Longrightarrow> config_ok (cfg_max_response_body_size_update (\<lambda>_. n) c)"
  "config_ok c \<Longrightarrow> t \<noteq> [] \<Longrightarrow> config_ok (cache_key_prefix_update (\<lambda>_. t) c)"
  "config_ok c \<Longrightarrow> t = cache_type_memory \<or> t = cache_type_filesystem \<Longrightarrow>
     config_ok (cache_type_update (\<lambda>_. t) c)"
  "config_ok c \<Longrightarrow> breaker_config_ok b \<Longrightarrow> config_ok (circuit_breaker_config_update (\<lambda>_. Some b) c)"
  by (simp_all add: config_ok_def)

lemma breaker_from_ok: "gives (breaker_from parse a) breaker_config_ok"
  unfolding breaker_from_def
  by (intro step_rules)
    (auto simp: breaker_config_ok_def default_circuit_breaker_config_def set_if_def)

lemma apply_allowed_ok: "config_ok c \<Longrightarrow> gives (apply_allowed a c) config_ok"
  by (auto simp: apply_allowed_def split: option.split sum.split)

lemma steps_keep_ok:
  assumes "config_ok c"
  shows "gives (apply_retry parse a c) config_ok"
    and "gives (apply_cache parse a c) config_ok"
    and "gives (apply_breaker parse a c) config_ok"
    and "gives (apply_policy a c) config_ok"
proof -
  show "gives (apply_retry parse a c) config_ok"
    unfolding apply_retry_def
    by (intro step_rules) (auto simp: assms intro!: config_ok_numbers)
  show "gives (apply_cache parse a c) config_ok"
    unfolding apply_cache_def Let_def
    by (intro step_rules)
      (auto simp: assms set_if_simps intro!: config_ok_numbers config_ok_set_if config_ok_set_ptr)
  show "gives (apply_breaker parse a c) config_ok"
    unfolding apply_breaker_def Let_def
    by (intro gives_if gives_and_then [OF breaker_from_ok])
      (auto simp: assms intro!: config_ok_numbers)
  show "gives (apply_policy a c) config_ok"
    unfolding apply_policy_def Let_def trust_resolution_def
    by (intro gives_same)
      (auto simp: assms intro!: config_ok_numbers apply_allowed_ok config_ok_set_if config_ok_set_ptr)
qed

lemma default_config_ok: "config_ok (default_config dir)"
  by (simp add: config_ok_def default_config_def breaker_config_ok_def default_circuit_breaker_config_def)

lemma client_config_from_ok: "gives (client_config_from parse dir cfg sink) config_ok"
  unfolding client_config_from_def Let_def
  by (cases cfg)
    (auto simp: default_config_ok intro!: gives_same steps_keep_ok)

lemma app_config_ok: "client_config_from parse dir cfg sink = Inr c \<Longrightarrow> config_ok c"
  by (rule givesD [OF client_config_from_ok])

text \<open>The policy a configuration resolves to.\<close>

lemma config_ip_policy_fields:
  "policy_fields c = policy_fields d \<Longrightarrow> config_ip_policy c = config_ip_policy d"
  by (simp add: policy_fields_def config_ip_policy_def)

definition chosen_policy :: "app_config \<Rightarrow> go_err + ip_policy" where
  "chosen_policy a =
     (case a_allowed_private_cidrs a of
        Some cs \<Rightarrow> new_ip_policy cs
      | None \<Rightarrow> Inr (if a_allow_private_ips a = Some True then allow_all_private_ips else default_ip_policy))"

lemma chosen_policy_trust: "chosen_policy a = Inr p \<Longrightarrow> \<not> trust_proxy_resolution p"
  by (auto simp: chosen_policy_def new_ip_policy_def allow_all_private_ips_def default_ip_policy_def
      split: option.splits sum.splits if_splits)

lemma apply_allowed_chosen:
  assumes "policy_fields c = (a_allow_private_ips a = Some True, None)"
  shows "case apply_allowed a c of
      Inl e \<Rightarrow> (case chosen_policy a of Inl _ \<Rightarrow> True | Inr _ \<Rightarrow> False)
    | Inr c' \<Rightarrow> chosen_policy a = Inr (config_ip_policy c')"
  using assms
  by (auto simp: apply_allowed_def chosen_policy_def policy_fields_def config_ip_policy_def resolve_ip_policy_def
      split: option.split sum.split)

lemma allow_private_policy:
  "policy_fields c = (False, None) \<Longrightarrow>
     policy_fields (set_ptr x (\<lambda>b. allow_private_ips_update (\<lambda>_. b)) c) = (x = Some True, None)"
  by (cases x) (auto simp: set_ptr_def policy_fields_def)

lemma trust_resolution_policy:
  "config_ip_policy (set_ptr x trust_resolution c) =
     (case x of None \<Rightarrow> config_ip_policy c | Some b \<Rightarrow> (config_ip_policy c)\<lparr>trust_proxy_resolution := b\<rparr>)"
  by (cases x) (simp_all add: set_ptr_def trust_resolution_def config_ip_policy_def resolve_ip_policy_def)

lemma same_trust: "\<not> trust_proxy_resolution p \<Longrightarrow> p\<lparr>trust_proxy_resolution := False\<rparr> = p"
  by (cases p) simp

lemma apply_policy_resolves:
  assumes "policy_fields c = (False, None)"
  shows "case apply_policy a c of
      Inl e \<Rightarrow> (case chosen_policy a of Inl _ \<Rightarrow> True | Inr _ \<Rightarrow> False)
    | Inr c' \<Rightarrow>
        (case chosen_policy a of
           Inl _ \<Rightarrow> False
         | Inr p \<Rightarrow> config_ip_policy c' =
             p\<lparr>trust_proxy_resolution := (a_trust_proxy_resolution a = Some True)\<rparr>)"
proof -
  let ?c2 = "set_ptr (a_allow_private_ips a) (\<lambda>b. allow_private_ips_update (\<lambda>_. b))
      (set_ptr (a_enable_compression a) (\<lambda>b. enable_compression_update (\<lambda>_. b)) c)"
  have "policy_fields ?c2 = (a_allow_private_ips a = Some True, None)"
    using assms by (intro allow_private_policy) simp
  note al = apply_allowed_chosen [OF this]
  show ?thesis
  proof (cases "apply_allowed a ?c2")
    case (Inl e)
    with al show ?thesis by (simp add: apply_policy_def Let_def and_then_def)
  next
    case (Inr c3)
    let ?c4 = "set_ptr (a_trust_proxy_resolution a) trust_resolution c3"
    let ?c5 = "set_if (a_max_response_body_size a > 0)
        (cfg_max_response_body_size_update (\<lambda>_. a_max_response_body_size a)) ?c4"
    have ch: "chosen_policy a = Inr (config_ip_policy c3)" using al Inr by simp
    have "config_ip_policy ?c5 = config_ip_policy ?c4" by (rule config_ip_policy_fields) simp
    also have "\<dots> = (config_ip_policy c3)\<lparr>trust_proxy_resolution := (a_trust_proxy_resolution a = Some True)\<rparr>"
      using same_trust [OF chosen_policy_trust [OF ch]]
      by (cases "a_trust_proxy_resolution a") (simp_all add: trust_resolution_policy)
    finally show ?thesis using Inr ch by (simp add: apply_policy_def Let_def and_then_def)
  qed
qed

lemma check_ip_trust:
  "check_ip (Some (p\<lparr>trust_proxy_resolution := b\<rparr>)) ip = None \<longleftrightarrow> check_ip (Some p) ip = None"
proof -
  have "clears (p\<lparr>trust_proxy_resolution := b\<rparr>) = clears p"
    by (rule ext) (simp add: clears_def allows_def)
  then show ?thesis by (simp add: check_ip_permitted effective_policy_def permitted_def)
qed

lemma client_config_from_policy:
  assumes "client_config_from parse dir (Some a) sink = Inr c"
  obtains p where "chosen_policy a = Inr p"
    "config_ip_policy c = p\<lparr>trust_proxy_resolution := (a_trust_proxy_resolution a = Some True)\<rparr>"
proof -
  let ?c0 = "(default_config dir)\<lparr>logger_sink := sink\<rparr> :: ('a, 'b, 'c) client_config"
  have k: "policy_fields ?c0 = (False, None)" by (simp add: policy_fields_def default_config_def)
  obtain c1 c2 c3 where s: "apply_retry parse a ?c0 = Inr c1" "apply_cache parse a c1 = Inr c2"
    "apply_breaker parse a c2 = Inr c3" "apply_policy a c3 = Inr c"
    using assms by (auto simp: client_config_from_def Let_def and_then_def split: sum.splits)
  have "policy_fields c1 = (False, None)" using steps_keep_policy(1) [OF k, of parse a] s(1) by simp
  then have "policy_fields c2 = (False, None)" using steps_keep_policy(2) [of c1 _ parse a] s(2) by simp
  then have "policy_fields c3 = (False, None)" using steps_keep_policy(3) [of c2 _ parse a] s(3) by simp
  from apply_policy_resolves [OF this, of a] s(4) that show ?thesis by (auto split: sum.splits)
qed

lemma apply_retry_fails:
  "fails (apply_retry parse a c) \<longleftrightarrow>
     bad_duration parse (a_timeout a) \<or> bad_duration parse (a_retry_wait_min a)
     \<or> bad_duration parse (a_retry_wait_max a)"
  unfolding apply_retry_def by (simp add: fails_and_then)

lemma apply_cache_fails:
  "fails (apply_cache parse a c) \<longleftrightarrow>
     a_cache_type a \<notin> {[], cache_type_memory, cache_type_filesystem} \<or> bad_duration parse (a_cache_ttl a)"
  unfolding apply_cache_def Let_def by (simp add: fails_and_then)

lemma apply_breaker_fails:
  "fails (apply_breaker parse a c) \<longleftrightarrow> bad_duration parse (a_circuit_breaker_open_timeout a)"
proof -
  have "fails (breaker_from parse a) \<longleftrightarrow> bad_duration parse (a_circuit_breaker_open_timeout a)"
    unfolding breaker_from_def by (simp add: fails_and_then)
  then show ?thesis
    unfolding apply_breaker_def Let_def by (auto simp: fails_and_then bad_duration_def)
qed

lemma new_ip_policy_fails: "fails (new_ip_policy cs) \<longleftrightarrow> \<not> list_all (\<lambda>t. parse_cidr t \<noteq> None) cs"
  by (induction cs) (auto simp: new_ip_policy_def split: option.splits sum.splits)

lemma apply_policy_fails:
  "fails (apply_policy a c) \<longleftrightarrow>
     (case a_allowed_private_cidrs a of None \<Rightarrow> False | Some cs \<Rightarrow> fails (new_ip_policy cs))"
proof -
  have "fails (apply_allowed a d) \<longleftrightarrow>
     (case a_allowed_private_cidrs a of None \<Rightarrow> False | Some cs \<Rightarrow> fails (new_ip_policy cs))"
    for d :: "('x, 'y, 'z) client_config"
    by (auto simp: apply_allowed_def split: option.split sum.split)
  then show ?thesis unfolding apply_policy_def Let_def by (simp add: fails_and_then)
qed

lemma client_config_from_verdict:
  assumes "client_config_from parse dir (Some a) sink = Inr c"
  shows "\<exists>p. chosen_policy a = Inr p
    \<and> trust_proxy_resolution (config_ip_policy c) = (a_trust_proxy_resolution a = Some True)
    \<and> (check_ip (Some (config_ip_policy c)) ip = None \<longleftrightarrow> check_ip (Some p) ip = None)"
proof -
  obtain p where "chosen_policy a = Inr p"
    "config_ip_policy c = p\<lparr>trust_proxy_resolution := (a_trust_proxy_resolution a = Some True)\<rparr>"
    by (rule client_config_from_policy [OF assms])
  then show ?thesis by (simp add: check_ip_trust)
qed

lemma check_ip_default_policy: "check_ip (Some default_ip_policy) ip = None \<longleftrightarrow> check_ip None ip = None"
  by (simp add: check_ip_permitted effective_policy_def)

section \<open>Properties\<close>

definition empty_app_config :: app_config where
  "empty_app_config =
     \<lparr>a_timeout = [], a_retry_max = 0, a_retry_wait_min = [], a_retry_wait_max = [],
      a_enable_cache = None, a_cache_type = [], a_cache_dir = [], a_cache_ttl = [],
      a_cache_key_prefix = [], a_max_cache_file_size = 0, a_memory_cache_size = 0,
      a_enable_circuit_breaker = None, a_circuit_breaker_max_failures = 0,
      a_circuit_breaker_open_timeout = [], a_circuit_breaker_half_open_max_requests = 0,
      a_enable_compression = None, a_allow_private_ips = None, a_allowed_private_cidrs = None,
      a_trust_proxy_resolution = None, a_max_response_body_size = 0\<rparr>"

definition lan_config :: app_config where
  "lan_config = empty_app_config\<lparr>a_allow_private_ips := Some True, a_allowed_private_cidrs := Some [''10.0.0.0/8'']\<rparr>"

definition closed_config :: app_config where
  "closed_config = empty_app_config\<lparr>a_allowed_private_cidrs := Some []\<rparr>"

definition example_from :: "app_config option \<Rightarrow> go_err + (unit, unit, unit) client_config" where
  "example_from a = client_config_from (\<lambda>t. Inl (errorf t)) ''/tmp'' a False"

lemma not_fails_Inr: "\<not> fails r \<Longrightarrow> r = Inr (projr r)"
  by (cases r) simp_all

text \<open>
  Merging is associative, with the absent configuration as unit, and a configuration merged with
  itself is itself.
\<close>

lemma merge_app_config_monoid:
  "merge_app_config (merge_app_config a b) c = merge_app_config a (merge_app_config b c)
   \<and> merge_app_config None a = a \<and> merge_app_config a None = a \<and> merge_app_config a a = a"
  by (simp add: merge_app_config_assoc merge_app_config_self)

text \<open>
  C14: The policy a configuration file resolves to: the listed blocks where a list is given, the
  empty list included and whatever \<open>allowPrivateIPs\<close> says, otherwise all private
  addresses or none; proxy resolution is trusted only if the file says so.
\<close>

theorem app_config_policy:
  assumes "client_config_from parse dir (Some a) sink = Inr c"
  shows "trust_proxy_resolution (config_ip_policy c) = (a_trust_proxy_resolution a = Some True)
    \<and> (check_ip (Some (config_ip_policy c)) ip = None \<longleftrightarrow>
        (case a_allowed_private_cidrs a of
           Some cs \<Rightarrow> (case new_ip_policy cs of Inl _ \<Rightarrow> False | Inr p \<Rightarrow> check_ip (Some p) ip = None)
         | None \<Rightarrow>
             check_ip (if a_allow_private_ips a = Some True then Some allow_all_private_ips else None) ip = None))"
proof -
  from client_config_from_verdict [OF assms, of ip] obtain p where "chosen_policy a = Inr p"
    "trust_proxy_resolution (config_ip_policy c) = (a_trust_proxy_resolution a = Some True)"
    "check_ip (Some (config_ip_policy c)) ip = None \<longleftrightarrow> check_ip (Some p) ip = None"
    by (elim exE conjE)
  then show ?thesis
    using check_ip_default_policy [of ip]
    by (auto simp: chosen_policy_def split: option.splits if_splits)
qed

theorem app_config_policy_witness:
  "check_ip (Some (config_ip_policy (projr (example_from (Some lan_config))))) [10, 1, 2, 3] = None
   \<and> check_ip (Some (config_ip_policy (projr (example_from (Some lan_config))))) [192, 168, 1, 1] \<noteq> None"
proof -
  have "\<not> fails (example_from (Some lan_config))" by code_simp
  then have r: "example_from (Some lan_config) = Inr (projr (example_from (Some lan_config)))"
    by (rule not_fails_Inr)
  have "case new_ip_policy [''10.0.0.0/8''] of Inl _ \<Rightarrow> False
      | Inr p \<Rightarrow> check_ip (Some p) [10, 1, 2, 3] = None \<and> check_ip (Some p) [192, 168, 1, 1] \<noteq> None"
    by code_simp
  moreover have "a_allowed_private_cidrs lan_config = Some [''10.0.0.0/8'']"
    by (simp add: lan_config_def empty_app_config_def)
  ultimately show ?thesis
    using app_config_policy [OF r [unfolded example_from_def], of "[10, 1, 2, 3]"]
      app_config_policy [OF r [unfolded example_from_def], of "[192, 168, 1, 1]"]
    by (auto simp: example_from_def split: sum.splits)
qed

text \<open>
  A narrower scope with an empty list of blocks takes back whatever the wider one allowed.
\<close>

lemma merged_scope_narrows:
  assumes "client_config_from parse dir (merge_app_config (Some b) (Some r)) sink = Inr c"
    and "a_allowed_private_cidrs r = Some []"
  shows "check_ip (Some (config_ip_policy c)) ip = None \<longleftrightarrow> check_ip None ip = None"
proof -
  obtain a where a: "merge_app_config (Some b) (Some r) = Some a" "a_allowed_private_cidrs a = Some []"
    using assms(2) by (simp add: merge_app_config_def merge_ptr_def)
  with assms(1) have "client_config_from parse dir (Some a) sink = Inr c" by simp
  from client_config_from_verdict [OF this, of ip] obtain p where "chosen_policy a = Inr p"
    "check_ip (Some (config_ip_policy c)) ip = None \<longleftrightarrow> check_ip (Some p) ip = None"
    by (elim exE conjE)
  with a(2) show ?thesis
    using check_ip_default_policy [of ip]
    by (simp add: chosen_policy_def new_ip_policy_def default_ip_policy_def)
qed

lemma merged_scope_narrows_witness:
  "check_ip (Some (config_ip_policy (projr (example_from (merge_app_config (Some lan_config) (Some closed_config))))))
     [10, 1, 2, 3] \<noteq> None"
proof -
  let ?r = "example_from (merge_app_config (Some lan_config) (Some closed_config))"
  have "\<not> fails ?r" by code_simp
  then have r: "?r = Inr (projr ?r)" by (rule not_fails_Inr)
  have "a_allowed_private_cidrs closed_config = Some []" by (simp add: closed_config_def)
  note n = merged_scope_narrows [OF r [unfolded example_from_def] this, of "[10, 1, 2, 3]"]
  have "check_ip None [10, 1, 2, 3] \<noteq> None" by code_simp
  with n show ?thesis by (simp only: example_from_def not_False_eq_True simp_thms)
qed

text \<open>
  C36: \<open>NewClientFromAppConfig\<close> fails exactly if a duration that is given does not
  parse, the cache type is unknown, or a CIDR block does not parse.
\<close>

theorem app_config_errors:
  "fails (client_config_from parse dir (Some a) sink :: go_err + ('w, 'b, 'h) client_config) \<longleftrightarrow>
     (if a_cache_type a \<in> {[], cache_type_memory, cache_type_filesystem}
      then list_ex (bad_duration parse)
          [a_timeout a, a_retry_wait_min a, a_retry_wait_max a, a_cache_ttl a, a_circuit_breaker_open_timeout a]
        \<or> (case a_allowed_private_cidrs a of None \<Rightarrow> False | Some cs \<Rightarrow> list_ex (\<lambda>t. parse_cidr t = None) cs)
      else True)"
proof -
  have "list_ex (\<lambda>t. parse_cidr t = None) cs \<longleftrightarrow> \<not> list_all (\<lambda>t. parse_cidr t \<noteq> None) cs" for cs
    by (induction cs) auto
  then show ?thesis
    by (auto simp: client_config_from_def Let_def fails_and_then apply_retry_fails apply_cache_fails
        apply_breaker_fails apply_policy_fails new_ip_policy_fails split: option.split)
qed

text \<open>
  C37: Every configuration built from a file is well-formed: a known cache type, positive limits,
  sizes and counts, a key prefix, a breaker configuration with positive limits and no transport of
  the caller's.
\<close>

theorem app_config_well_formed:
  "case client_config_from parse dir cfg sink of Inl _ \<Rightarrow> True | Inr c \<Rightarrow> config_ok c"
  using client_config_from_ok [of parse dir cfg sink] by (simp add: gives_def)

end
