(* ===== verification/ClientCache.thy ===== *)
theory ClientCache
  imports ClientSetup Complex_Main
begin

text \<open>
  The methods of the client on its cache (\<open>client.go\<close>): \<open>ClearCache\<close>,
  \<open>CleanExpiredCache\<close>, \<open>DeleteCacheEntry\<close>, \<open>WarmCache\<close>, \<open>CacheStats\<close> and
  \<open>Close\<close>. A client without a cache has \<open>None\<close>.
\<close>

section \<open>Operations\<close>

definition clear_cache ::
    "io_env \<Rightarrow> 's cache_store option \<Rightarrow> go_err option \<times> 's cache_store option" where
  "clear_cache env cache =
     (case cache of
        None \<Rightarrow> (None, None)
      | Some (FileStore fc) \<Rightarrow> (case cache_clear env fc of (e, fc') \<Rightarrow> (e, Some (FileStore fc')))
      | Some (MemoryStore mc) \<Rightarrow>
          (Some (errorf ''cache clearing not supported for this cache type''), Some (MemoryStore mc)))"

definition clean_expired_cache ::
    "io_env \<Rightarrow> 's cache_store option \<Rightarrow> go_err option \<times> 's cache_store option" where
  "clean_expired_cache env cache =
     (case cache of
        None \<Rightarrow> (None, None)
      | Some (FileStore fc) \<Rightarrow> (case clean_expired env fc of (e, fc') \<Rightarrow> (e, Some (FileStore fc')))
      | Some (MemoryStore mc) \<Rightarrow>
          (Some (errorf ''cache cleanup not supported for this cache type''), Some (MemoryStore mc)))"

definition delete_cache_entry ::
    "(string \<Rightarrow> string) \<Rightarrow> io_env \<Rightarrow> 's base_cache \<Rightarrow> string \<Rightarrow> 's cache_store option
      \<Rightarrow> go_err option \<times> 's cache_store option" where
  "delete_cache_entry sha env b u cache =
     (case cache of
        None \<Rightarrow> (None, None)
      | Some (FileStore fc) \<Rightarrow> (case cache_del sha env u fc of (e, fc') \<Rightarrow> (e, Some (FileStore fc')))
      | Some (MemoryStore mc) \<Rightarrow> (case memory_del b u mc of (e, mc') \<Rightarrow> (e, Some (MemoryStore mc'))))"

text \<open>
  \<open>WarmCache\<close>: the errors in order. A \<open>Get\<close> that returns neither a response nor an error makes the
  loop read a field of a nil response, which panics: \<open>None\<close>.
\<close>

definition release_body :: "'w client \<Rightarrow> response \<Rightarrow> 'w client_state \<Rightarrow> 'w client_state" where
  "release_body c resp s =
     (case resp_body resp of
        None \<Rightarrow> s
      | Some b \<Rightarrow> s\<lparr>world := close_body c b (drain_body c b (world s))\<rparr>)"

fun warm_loop ::
    "'w client \<Rightarrow> string list \<Rightarrow> 'w client_state \<Rightarrow> go_err list \<Rightarrow> (go_err list \<times> 'w client_state) option"
  where
  "warm_loop c [] s errs = Some (errs, s)"
| "warm_loop c (u # us) s errs =
     (case client_get c u s of
        ((resp, Some e), s') \<Rightarrow> warm_loop c us s' (errs @ [errorf_w ''failed to warm cache'' e])
      | ((Some resp, None), s') \<Rightarrow> warm_loop c us (release_body c resp s') errs
      | ((None, None), s') \<Rightarrow> None)"

definition warm_cache ::
    "'w client \<Rightarrow> 's cache_store option \<Rightarrow> string list \<Rightarrow> 'w client_state
      \<Rightarrow> (go_err option \<times> 'w client_state) option" where
  "warm_cache c cache urls s =
     (if cache = None then Some (Some (errorf ''cache not enabled''), s)
      else map_option
        (\<lambda>(errs, s').
          (if length errs > 0 then Some (errorf ''encountered errors while warming cache'') else None, s'))
        (warm_loop c urls s []))"

text \<open>The hit rate is kept as a fraction, before its rounding to \<open>float64\<close>.\<close>

record cache_statistics =
  st_hits :: "64 word"
  st_misses :: "64 word"
  st_hit_rate :: rat

definition hit_rate :: "64 word \<Rightarrow> 64 word \<Rightarrow> rat" where
  "hit_rate hits misses =
     (let total = hits + misses in if total > 0 then of_nat (unat hits) / of_nat (unat total) else 0)"

definition client_cache_stats :: "'s cache_store option \<Rightarrow> cache_statistics option" where
  "client_cache_stats cache =
     (case cache of
        None \<Rightarrow> None
      | Some store \<Rightarrow>
          (case (case store of FileStore fc \<Rightarrow> cache_stats fc | MemoryStore mc \<Rightarrow> memory_stats mc) of
             (hits, misses) \<Rightarrow>
               Some \<lparr>st_hits = hits, st_misses = misses, st_hit_rate = hit_rate hits misses\<rparr>))"

text \<open>\<open>Close\<close>: the transport whose idle connections it closes, the error and the cache after it.\<close>

definition client_close ::
    "io_env \<Rightarrow> ('w, 's, 'b, 'h) http_client
      \<Rightarrow> clone_transport option \<times> go_err option \<times> ('w, 's, 'b, 'h) http_client" where
  "client_close env hc =
     (hc_idle_closer hc,
      case hc_cache hc of
        None \<Rightarrow> (None, hc)
      | Some (FileStore fc) \<Rightarrow> (case cache_close env fc of (e, fc') \<Rightarrow> (e, hc\<lparr>hc_cache := Some (FileStore fc')\<rparr>))
      | Some (MemoryStore mc) \<Rightarrow> (None, hc))"

section \<open>Facts\<close>

text \<open>The rate is a proportion as long as the sum of the counters does not wrap around.\<close>

lemma proportion:
  "h \<le> n \<Longrightarrow> 0 \<le> (of_nat h / of_nat n :: rat) \<and> (of_nat h / of_nat n :: rat) \<le> 1"
  by (cases "n = 0") (auto simp: divide_le_eq_1)

lemma hit_rate_bounds:
  assumes "unat hits + unat misses < 2 ^ 64"
  shows "0 \<le> hit_rate hits misses \<and> hit_rate hits misses \<le> 1"
proof -
  have "unat hits \<le> unat (hits + misses)"
    using assms by (simp add: unat_word_ariths)
  from proportion [OF this] show ?thesis
    unfolding hit_rate_def Let_def by (cases "hits + misses > 0") (simp_all only: if_True if_False, simp)
qed

section \<open>Properties\<close>

text \<open>
  The requests \<open>WarmCache\<close> makes: every URL is tried, in order, whatever the ones before it
  returned, and the error says whether one of them failed.
\<close>

fun get_all :: "'w client \<Rightarrow> string list \<Rightarrow> 'w client_state \<Rightarrow> do_result list \<times> 'w client_state" where
  "get_all c [] s = ([], s)"
| "get_all c (u # us) s =
     (case client_get c u s of
        (r, s1) \<Rightarrow>
          (case get_all c us
              (case r of (Some resp, None) \<Rightarrow> release_body c resp s1 | _ \<Rightarrow> s1) of
             (rs, s2) \<Rightarrow> (r # rs, s2)))"

lemma no_errors: "length (filter (\<lambda>r. snd r \<noteq> None) rs) = 0 \<longleftrightarrow> list_all (\<lambda>r. snd r = None) rs"
  by (induction rs) auto

lemma get_all_length: "get_all c us s = (rs, s') \<Longrightarrow> length rs = length us"
  by (induction us arbitrary: s rs) (auto split: prod.splits)

lemma warm_loop_all:
  assumes "get_all c us s = (rs, s')" "(None, None) \<notin> set rs"
  shows "\<exists>es. warm_loop c us s errs = Some (errs @ es, s')
    \<and> length es = length (filter (\<lambda>r. snd r \<noteq> None) rs)"
  using assms
proof (induction us arbitrary: s rs errs)
  case (Cons u us)
  obtain resp e s1 where g: "client_get c u s = ((resp, e), s1)" by (metis surj_pair)
  let ?s1 = "case (resp, e) of (Some resp, None) \<Rightarrow> release_body c resp s1 | _ \<Rightarrow> s1"
  obtain rs' where rs: "rs = (resp, e) # rs'" and a: "get_all c us ?s1 = (rs', s')"
    using Cons.prems(1) g by (auto split: prod.splits)
  have ih: "\<exists>es. warm_loop c us ?s1 errs' = Some (errs' @ es, s')
      \<and> length es = length (filter (\<lambda>r. snd r \<noteq> None) rs')" for errs'
    using Cons.IH [OF a] Cons.prems(2) by (simp add: rs)
  show ?case
  proof (cases e)
    case None
    then obtain r where r: "resp = Some r" using Cons.prems(2) rs by (cases resp) auto
    with ih [of errs] None g show ?thesis by (simp add: rs)
  next
    case (Some x)
    with ih [of "errs @ [errorf_w ''failed to warm cache'' x]"] g show ?thesis
      by (auto simp: rs split: option.splits)
  qed
qed simp

text \<open>
  \<open>WarmCache\<close> tries every URL and reports an error exactly if one of them failed.
\<close>

lemma warm_cache_tries_all:
  assumes "get_all c urls s = (rs, s')" and "(None, None) \<notin> set rs" and "cache \<noteq> None"
  shows "length rs = length urls
    \<and> (\<exists>e. warm_cache c cache urls s = Some (e, s') \<and> (e = None \<longleftrightarrow> list_all (\<lambda>r. snd r = None) rs))"
proof -
  obtain es where es: "warm_loop c urls s [] = Some (es, s')"
    "length es = length (filter (\<lambda>r. snd r \<noteq> None) rs)"
    using warm_loop_all [OF assms(1,2), of "[]"] by auto
  have "es = [] \<longleftrightarrow> list_all (\<lambda>r. snd r = None) rs"
    using es(2) no_errors [of rs] by auto
  then show ?thesis
    using es(1) assms(3) get_all_length [OF assms(1)] by (auto simp: warm_cache_def)
qed

end
