(* ===== verification/SharedCache.thy ===== *)
theory SharedCache
  imports FileCache
begin

text \<open>
  The filesystem cache under concurrent calls. \<open>Get\<close>, \<open>Set\<close> and \<open>Del\<close> of
  \<open>filecache.go\<close> are split at every access to what goroutines share, the directory and the
  tracked size; a call is then a task that takes one step at a time, between any steps of the others.
\<close>

section \<open>Tasks\<close>

text \<open>
  The point a call has reached, with the local variables it still needs: the file name and the
  path of the temp file, the data, the old size and the error or result to return.
\<close>

type_synonym task_result = "bytes option \<times> go_err option"

datatype task =
    SetStat string bytes
  | SetCreate string bytes int
  | SetWrite string string bytes int
  | SetClose string string bytes int
  | SetChmod string string bytes int
  | SetRename string string bytes int
  | SetCleanup string go_err
  | GetRead string
  | GetStat string bytes
  | GetRemove string
  | DelStat string
  | DelRemove string int
  | Adjust int
  | ResetSize
  | ReportSize int
  | Done task_result

text \<open>The beginnings of the three operations, up to their first access.\<close>

definition set_task :: "(string \<Rightarrow> string) \<Rightarrow> io_env \<Rightarrow> string \<Rightarrow> bytes \<Rightarrow> file_cache \<Rightarrow> task" where
  "set_task sha env key data fc =
     (case ctx_start env of
        Some e \<Rightarrow> Done (None, Some e)
      | None \<Rightarrow>
          if fc_max_size fc > 0 \<and> int (length data) > fc_max_size fc
          then Done (None, Some (errorf_w ''entry size exceeds limit'' (err_value ErrCacheSizeLimitExceeded)))
          else SetStat (key_to_filename sha fc key) data)"

definition get_task :: "(string \<Rightarrow> string) \<Rightarrow> io_env \<Rightarrow> string \<Rightarrow> file_cache \<Rightarrow> task" where
  "get_task sha env key fc =
     (case ctx_start env of
        Some e \<Rightarrow> Done (None, Some e)
      | None \<Rightarrow>
          (case ctx_io env of
             Some e \<Rightarrow> Done (None, Some (errorf_w ''cache read timeout'' e))
           | None \<Rightarrow> GetRead (key_to_filename sha fc key)))"

definition del_task :: "(string \<Rightarrow> string) \<Rightarrow> io_env \<Rightarrow> string \<Rightarrow> file_cache \<Rightarrow> task" where
  "del_task sha env key fc =
     (case ctx_start env of
        Some e \<Rightarrow> Done (None, Some e)
      | None \<Rightarrow> DelStat (key_to_filename sha fc key))"

fun task_of :: "(string \<Rightarrow> string) \<Rightarrow> io_env \<Rightarrow> cache_op \<Rightarrow> file_cache \<Rightarrow> task" where
  "task_of sha env (GetOp k) fc = get_task sha env k fc"
| "task_of sha env (SetOp k b) fc = set_task sha env k b fc"
| "task_of sha env (DelOp k) fc = del_task sha env k fc"

text \<open>
  The temp file is open from its creation to the write, so a write to a file that was removed in
  between reaches no name of the directory. \<open>os.Chmod\<close> goes by name again.
\<close>

definition write_tmp :: "io_env \<Rightarrow> string \<Rightarrow> bytes \<Rightarrow> file_cache \<Rightarrow> file_cache" where
  "write_tmp env tmp data fc =
     (if map_of (fc_disk fc) tmp = None then fc
      else fc\<lparr>fc_disk := AList.update tmp \<lparr>content = data, mtime = io_now env, is_dir = False\<rparr> (fc_disk fc)\<rparr>)"

definition os_chmod :: "io_env \<Rightarrow> string \<Rightarrow> disk \<Rightarrow> go_err option" where
  "os_chmod env name d = (case map_of d name of None \<Rightarrow> Some not_exist | Some _ \<Rightarrow> chmod_fault env)"

definition stat_size :: "io_env \<Rightarrow> string \<Rightarrow> disk \<Rightarrow> int" where
  "stat_size env name d = (case os_stat env name d of Inr f \<Rightarrow> size_of f | Inl _ \<Rightarrow> 0)"

definition done_miss :: "file_cache \<Rightarrow> task \<times> file_cache" where
  "done_miss fc = (case miss fc of (r, fc') \<Rightarrow> (Done r, fc'))"

definition done_hit :: "bytes \<Rightarrow> file_cache \<Rightarrow> task \<times> file_cache" where
  "done_hit data fc = (case hit data fc of (r, fc') \<Rightarrow> (Done r, fc'))"

fun set_step :: "io_env \<Rightarrow> task \<Rightarrow> file_cache \<Rightarrow> task \<times> file_cache" where
  "set_step env (SetStat name data) fc = (SetCreate name data (stat_size env name (fc_disk fc)), fc)"
| "set_step env (SetCreate name data old_size) fc =
     (case ctx_io env of
        Some e \<Rightarrow> (Done (None, Some (errorf_w ''cache write timeout'' e)), fc)
      | None \<Rightarrow>
          (case create_fault env of
             Some e \<Rightarrow> (Done (None, Some (errorf_w ''failed to create temp cache file'' e)), fc)
           | None \<Rightarrow> (SetWrite name (tmp_name env) data old_size, put_tmp env [] fc)))"
| "set_step env (SetWrite name tmp data old_size) fc =
     (case write_fault env of
        Some (n, e) \<Rightarrow>
          (SetCleanup tmp (errorf_w ''failed to write cache file'' e), write_tmp env tmp (take n data) fc)
      | None \<Rightarrow> (SetClose name tmp data old_size, write_tmp env tmp data fc))"
| "set_step env (SetClose name tmp data old_size) fc =
     (case close_fault env of
        Some e \<Rightarrow> (SetCleanup tmp (errorf_w ''failed to close temp cache file'' e), fc)
      | None \<Rightarrow> (SetChmod name tmp data old_size, fc))"
| "set_step env (SetChmod name tmp data old_size) fc =
     (case os_chmod env tmp (fc_disk fc) of
        Some e \<Rightarrow> (SetCleanup tmp (errorf_w ''failed to set cache file permissions'' e), fc)
      | None \<Rightarrow> (SetRename name tmp data old_size, fc))"
| "set_step env (SetRename name tmp data old_size) fc =
     (case ctx_done env of
        Some e \<Rightarrow> (SetCleanup tmp (errorf_w ''cache write timeout'' e), fc)
      | None \<Rightarrow>
          (case os_rename env tmp name (fc_disk fc) of
             (Some e, d) \<Rightarrow> (SetCleanup tmp (errorf_w ''failed to rename cache file'' e), fc\<lparr>fc_disk := d\<rparr>)
           | (None, d) \<Rightarrow> (Adjust (int (length data) - old_size), fc\<lparr>fc_disk := d\<rparr>)))"
| "set_step env (SetCleanup tmp e) fc =
     (Done (None, Some e), fc\<lparr>fc_disk := snd (os_remove env tmp (fc_disk fc))\<rparr>)"
| "set_step env t fc = (t, fc)"

fun get_step :: "io_env \<Rightarrow> task \<Rightarrow> file_cache \<Rightarrow> task \<times> file_cache" where
  "get_step env (GetRead name) fc =
     (case os_read_file env name (fc_disk fc) of
        Inl e \<Rightarrow>
          if errors_is e ErrNotExist then done_miss fc
          else (Done (None, Some (errorf_w ''failed to read cache file'' e)), fc)
      | Inr data \<Rightarrow>
          (case ctx_done env of
             Some e \<Rightarrow> (Done (None, Some (errorf_w ''cache read timeout'' e)), fc)
           | None \<Rightarrow> if fc_ttl fc > 0 then (GetStat name data, fc) else done_hit data fc))"
| "get_step env (GetStat name data) fc =
     (case os_stat env name (fc_disk fc) of
        Inl e \<Rightarrow>
          if errors_is e ErrNotExist then done_miss fc
          else (Done (None, Some (errorf_w ''failed to stat cache file'' e)), fc)
      | Inr f \<Rightarrow> if io_now env - mtime f > fc_ttl fc then (GetRemove name, fc) else done_hit data fc)"
| "get_step env (GetRemove name) fc =
     done_miss (fc\<lparr>fc_disk := snd (os_remove env name (fc_disk fc))\<rparr>)"
| "get_step env t fc = (t, fc)"

fun del_step :: "io_env \<Rightarrow> task \<Rightarrow> file_cache \<Rightarrow> task \<times> file_cache" where
  "del_step env (DelStat name) fc = (DelRemove name (stat_size env name (fc_disk fc)), fc)"
| "del_step env (DelRemove name removed) fc =
     (case os_remove env name (fc_disk fc) of
        (Some e, d) \<Rightarrow>
          if \<not> errors_is e ErrNotExist
          then (Done (None, Some (errorf_w ''failed to delete cache file'' e)), fc\<lparr>fc_disk := d\<rparr>)
          else (if removed > 0 then Adjust (- removed) else Done (None, None), fc\<lparr>fc_disk := d\<rparr>)
      | (None, d) \<Rightarrow>
          (if removed > 0 then Adjust (- removed) else Done (None, None), fc\<lparr>fc_disk := d\<rparr>))"
| "del_step env t fc = (t, fc)"

text \<open>
  \<open>adjustCacheSize\<close>, with which \<open>Set\<close> and \<open>Del\<close> end: the atomic addition, the
  correction of a negative sum and the call of the metric are steps of their own.
\<close>

fun adjust_step :: "task \<Rightarrow> file_cache \<Rightarrow> task \<times> file_cache" where
  "adjust_step (Adjust delta) fc =
     (let n = fc_cached_size fc + delta
      in (if n < 0 then ResetSize else ReportSize n, fc\<lparr>fc_cached_size := n\<rparr>))"
| "adjust_step ResetSize fc = (ReportSize 0, fc\<lparr>fc_cached_size := 0\<rparr>)"
| "adjust_step (ReportSize n) fc = (Done (None, None), fc\<lparr>fc_size_metric := Some n\<rparr>)"
| "adjust_step t fc = (t, fc)"

definition task_step :: "io_env \<Rightarrow> task \<Rightarrow> file_cache \<Rightarrow> task \<times> file_cache" where
  "task_step env t fc =
     (case t of
        SetStat _ _ \<Rightarrow> set_step env t fc | SetCreate _ _ _ \<Rightarrow> set_step env t fc
      | SetWrite _ _ _ _ \<Rightarrow> set_step env t fc | SetClose _ _ _ _ \<Rightarrow> set_step env t fc
      | SetChmod _ _ _ _ \<Rightarrow> set_step env t fc | SetRename _ _ _ _ \<Rightarrow> set_step env t fc
      | SetCleanup _ _ \<Rightarrow> set_step env t fc
      | GetRead _ \<Rightarrow> get_step env t fc | GetStat _ _ \<Rightarrow> get_step env t fc | GetRemove _ \<Rightarrow> get_step env t fc
      | DelStat _ \<Rightarrow> del_step env t fc | DelRemove _ _ \<Rightarrow> del_step env t fc
      | Adjust _ \<Rightarrow> adjust_step t fc | ResetSize \<Rightarrow> adjust_step t fc | ReportSize _ \<Rightarrow> adjust_step t fc
      | Done _ \<Rightarrow> (t, fc))"

lemma task_step_simps [simp]:
  "task_step env (SetStat n b) fc = set_step env (SetStat n b) fc"
  "task_step env (SetCreate n b i) fc = set_step env (SetCreate n b i) fc"
  "task_step env (SetWrite n t b i) fc = set_step env (SetWrite n t b i) fc"
  "task_step env (SetClose n t b i) fc = set_step env (SetClose n t b i) fc"
  "task_step env (SetChmod n t b i) fc = set_step env (SetChmod n t b i) fc"
  "task_step env (SetRename n t b i) fc = set_step env (SetRename n t b i) fc"
  "task_step env (SetCleanup t e) fc = set_step env (SetCleanup t e) fc"
  "task_step env (GetRead n) fc = get_step env (GetRead n) fc"
  "task_step env (GetStat n b) fc = get_step env (GetStat n b) fc"
  "task_step env (GetRemove n) fc = get_step env (GetRemove n) fc"
  "task_step env (DelStat n) fc = del_step env (DelStat n) fc"
  "task_step env (DelRemove n i) fc = del_step env (DelRemove n i) fc"
  "task_step env (Adjust i) fc = adjust_step (Adjust i) fc"
  "task_step env ResetSize fc = adjust_step ResetSize fc"
  "task_step env (ReportSize i) fc = adjust_step (ReportSize i) fc"
  "task_step env (Done r) fc = (Done r, fc)"
  by (simp_all add: task_step_def)

section \<open>A task on its own\<close>

fun run_task :: "nat \<Rightarrow> io_env \<Rightarrow> task \<Rightarrow> file_cache \<Rightarrow> task \<times> file_cache" where
  "run_task 0 env t fc = (t, fc)"
| "run_task (Suc n) env t fc = (case task_step env t fc of (t', fc') \<Rightarrow> run_task n env t' fc')"

lemma run_task_Done [simp]: "run_task n env (Done r) fc = (Done r, fc)"
  by (induction n) simp_all

lemma run_task_numeral [simp]:
  "run_task (numeral k) env t fc = (case task_step env t fc of (t', fc') \<Rightarrow> run_task (pred_numeral k) env t' fc')"
  by (simp add: numeral_eq_Suc)

lemma run_adjust:
  "run_task (Suc (Suc (Suc n))) env (Adjust delta) fc = (Done (None, None), adjust_cache_size delta fc)"
  by (auto simp: Let_def adjust_cache_size_def)

lemma update_twice [simp]: "AList.update k v (AList.update k w d) = AList.update k v d"
  by (induction d) auto

lemma stat_size_write: "stat_size env n d = (case os_stat env n d of Inr f \<Rightarrow> size_of f | Inl _ \<Rightarrow> 0)"
  by (simp add: stat_size_def)

lemma write_after_create:
  "write_tmp env (tmp_name env) data (put_tmp env b fc) = put_tmp env data fc"
  by (simp add: write_tmp_def put_tmp_def)

lemma chmod_tmp: "os_chmod env (tmp_name env) (fc_disk (put_tmp env b fc)) = chmod_fault env"
  by (simp add: os_chmod_def put_tmp_def)

lemma run_set_task:
  "run_task 9 env (set_task sha env key data fc) fc =
     (case cache_set sha env key data fc of (e, fc') \<Rightarrow> (Done (None, e), fc'))"
proof (cases "fc_max_size fc > 0 \<and> int (length data) > fc_max_size fc")
  case True
  then show ?thesis by (simp add: set_task_def cache_set_def split: option.split)
next
  case False
  then show ?thesis
    unfolding set_task_def cache_set_def if_not_P [OF False]
    by (simp add: Let_def stat_size_write write_after_create chmod_tmp fail_set_def
        adjust_cache_size_def split: option.split prod.split)
qed

lemma run_get_task:
  "run_task 9 env (get_task sha env key fc) fc =
     (case cache_get sha env key fc of (r, fc') \<Rightarrow> (Done r, fc'))"
  by (auto simp: get_task_def cache_get_def Let_def done_miss_def done_hit_def
      split: option.split prod.split sum.split)

lemma run_del_task:
  "run_task 9 env (del_task sha env key fc) fc =
     (case cache_del sha env key fc of (e, fc') \<Rightarrow> (Done (None, e), fc'))"
  by (auto simp: del_task_def cache_del_def Let_def stat_size_def adjust_cache_size_def
      split: option.split prod.split sum.split)

text \<open>
  A call that is left alone takes at most nine steps and ends with the result and the state
  of the operation as a whole, whatever system call fails.
\<close>

lemma task_runs_operation:
  "run_task 9 env (task_of sha env p fc) fc =
     (case p of
        GetOp k \<Rightarrow> (case cache_get sha env k fc of (r, fc') \<Rightarrow> (Done r, fc'))
      | SetOp k b \<Rightarrow> (case cache_set sha env k b fc of (e, fc') \<Rightarrow> (Done (None, e), fc'))
      | DelOp k \<Rightarrow> (case cache_del sha env k fc of (e, fc') \<Rightarrow> (Done (None, e), fc')))"
  by (cases p) (simp_all only: task_of.simps cache_op.case run_get_task run_set_task run_del_task)

text \<open>
  Every step of a task but those that end it or wait for nothing comes closer to the end: a task
  takes at most nine.
\<close>

fun task_rank :: "task \<Rightarrow> nat" where
  "task_rank (SetStat n b) = 9"
| "task_rank (SetCreate n b i) = 8"
| "task_rank (SetWrite n t b i) = 7"
| "task_rank (SetClose n t b i) = 6"
| "task_rank (SetChmod n t b i) = 5"
| "task_rank (SetRename n t b i) = 4"
| "task_rank (SetCleanup t e) = 1"
| "task_rank (GetRead n) = 3"
| "task_rank (GetStat n b) = 2"
| "task_rank (GetRemove n) = 1"
| "task_rank (DelStat n) = 5"
| "task_rank (DelRemove n i) = 4"
| "task_rank (Adjust i) = 3"
| "task_rank ResetSize = 2"
| "task_rank (ReportSize i) = 1"
| "task_rank (Done r) = 0"

lemma task_step_rank:
  assumes "task_step env t fc = (t', fc')" "0 < task_rank t"
  shows "task_rank t' < task_rank t"
  using assms
  by (cases t)
    (auto simp: Let_def done_miss_def done_hit_def split: option.splits prod.splits sum.splits if_splits)

section \<open>Interleaving\<close>

text \<open>
  The state: the cache and the calls made on it, each with the operation it runs. A call begins,
  or one of them takes a step with whatever faults and clock reading the environment chooses.
  \<open>CreateTemp\<close> gives a name no file has and no open temp file had. A file may also be removed at
  any time, by \<open>Clear\<close> or \<open>CleanExpired\<close>, and they recompute the size.
\<close>

type_synonym shared_cache = "file_cache \<times> (cache_op \<times> task) list"

definition temp_named :: "string \<Rightarrow> bool" where
  "temp_named s \<longleftrightarrow> take 11 s = ''.httpc-tmp-''"

fun tmp_of :: "task \<Rightarrow> string option" where
  "tmp_of (SetWrite n t b i) = Some t"
| "tmp_of (SetClose n t b i) = Some t"
| "tmp_of (SetChmod n t b i) = Some t"
| "tmp_of (SetRename n t b i) = Some t"
| "tmp_of (SetCleanup t e) = Some t"
| "tmp_of _ = None"

definition fresh_tmp :: "string \<Rightarrow> shared_cache \<Rightarrow> bool" where
  "fresh_tmp tmp s \<longleftrightarrow> temp_named tmp \<and> tmp \<notin> names (fc_disk (fst s))
     \<and> list_all (\<lambda>(p, t). tmp_of t \<noteq> Some tmp) (snd s)"

inductive shared_trans :: "(string \<Rightarrow> string) \<Rightarrow> shared_cache \<Rightarrow> shared_cache \<Rightarrow> bool"
  for sha :: "string \<Rightarrow> string" where
  shared_call: "shared_trans sha (fc, ts) (fc, ts @ [(p, task_of sha env p fc)])"
| shared_step: "i < length ts \<Longrightarrow> ts ! i = (p, t) \<Longrightarrow> fresh_tmp (tmp_name env) (fc, ts)
    \<Longrightarrow> task_step env t fc = (t', fc') \<Longrightarrow> shared_trans sha (fc, ts) (fc', ts[i := (p, t')])"
| shared_remove: "shared_trans sha (fc, ts) (fc\<lparr>fc_disk := AList.delete name (fc_disk fc)\<rparr>, ts)"
| shared_refresh: "shared_trans sha (fc, ts) (update_cache_size_metric env fc, ts)"

inductive_cases shared_transE: "shared_trans sha (fc, ts) s"

text \<open>The hexadecimal names of the entries are never names of temp files.\<close>

definition shared_start :: "(string \<Rightarrow> string) \<Rightarrow> file_cache \<Rightarrow> shared_cache \<Rightarrow> bool" where
  "shared_start sha fc0 s \<longleftrightarrow> s = (fc0, []) \<and> (\<forall>t. \<not> temp_named (sha t))"

text \<open>
  \<open>Clear\<close> and \<open>CleanExpired\<close> are runs of such removals, with a refresh where they make one.
\<close>

definition removes :: "disk \<Rightarrow> disk \<Rightarrow> bool" where
  "removes d d' \<longleftrightarrow> (\<exists>ns. d' = fold AList.delete ns d)"

lemma removes_refl [simp]: "removes d d"
  unfolding removes_def by (rule exI [of _ "[]"]) simp

lemma os_remove_removes: "removes (snd (os_remove env n d)) d' \<Longrightarrow> removes d d'"
  unfolding removes_def
  by (auto simp: os_remove_def split: option.splits) (metis fold_simps(2))

lemma clear_loop_removes: "removes d (snd (clear_loop env es (k, d)))"
proof (induction es arbitrary: k d)
  case (Cons x es)
  obtain n f where x: "x = (n, f)" by fastforce
  from os_remove_removes [where env = env and n = n and d = d, OF Cons.IH] Cons.IH show ?case
    by (cases "os_remove env n d"; cases "fst (os_remove env n d)") (simp_all add: x)
qed simp

lemma clean_loop_removes: "removes d (snd (clean_loop env ttl es (k, d)))"
proof (induction es arbitrary: k d)
  case (Cons x es)
  obtain n f where x: "x = (n, f)" by fastforce
  from os_remove_removes [where env = env and n = n and d = d, OF Cons.IH] Cons.IH show ?case
    by (cases "os_remove env n d"; cases "fst (os_remove env n d)") (simp_all add: x)
qed simp

lemma removals_reachable:
  "reachable start (shared_trans sha) (fc, ts) \<Longrightarrow>
     reachable start (shared_trans sha) (fc\<lparr>fc_disk := fold AList.delete ns (fc_disk fc)\<rparr>, ts)"
proof (induction ns arbitrary: fc)
  case (Cons n ns)
  from Cons.IH [OF reach_step [OF Cons.prems shared_remove [of sha fc ts n]]] show ?case by simp
qed simp

lemma cleanup_reachable:
  assumes "reachable start (shared_trans sha) (fc, ts)"
  shows "reachable start (shared_trans sha) (snd (cache_clear env fc), ts)"
    and "reachable start (shared_trans sha) (snd (clean_expired env fc), ts)"
proof -
  have r: "reachable start (shared_trans sha) (fc\<lparr>fc_disk := d\<rparr>, ts)" if "removes (fc_disk fc) d" for d
    using that removals_reachable [OF assms] by (auto simp: removes_def)
  note m = reach_step [OF r shared_refresh [of sha _ ts env]]
  show "reachable start (shared_trans sha) (snd (cache_clear env fc), ts)"
    using assms r m clear_loop_removes [of "fc_disk fc" env "fc_disk fc" 0]
    by (auto simp: cache_clear_def split: option.split prod.split)
  show "reachable start (shared_trans sha) (snd (clean_expired env fc), ts)"
    using assms m clean_loop_removes [of "fc_disk fc" env "fc_ttl fc" "fc_disk fc" 0]
    by (auto simp: clean_expired_def split: option.split prod.split)
qed

section \<open>The invariant\<close>

text \<open>What was stored under a file name: the entry it had at the start and what the calls set.\<close>

definition stored :: "(string \<Rightarrow> string) \<Rightarrow> disk \<Rightarrow> cache_op list \<Rightarrow> string \<Rightarrow> bytes set" where
  "stored fname d0 ps n =
     content ` set_option (map_of d0 n) \<union> {b. \<exists>k. SetOp k b \<in> set ps \<and> n = fname k}"

lemma stored_mono: "set ps \<subseteq> set qs \<Longrightarrow> stored fname d0 ps n \<subseteq> stored fname d0 qs n"
  by (auto simp: stored_def)

definition entries_ok :: "(string \<Rightarrow> bytes set) \<Rightarrow> disk \<Rightarrow> bool" where
  "entries_ok S d \<longleftrightarrow> (\<forall>n f. map_of d n = Some f \<longrightarrow> temp_named n \<or> content f \<in> S n)"

definition holds :: "disk \<Rightarrow> string \<Rightarrow> bytes \<Rightarrow> bool" where
  "holds d tmp b \<longleftrightarrow> (case map_of d tmp of None \<Rightarrow> True | Some f \<Rightarrow> content f = b)"

definition sets_ok :: "(string \<Rightarrow> bytes set) \<Rightarrow> string \<Rightarrow> bytes \<Rightarrow> bool" where
  "sets_ok S n b \<longleftrightarrow> b \<in> S n \<and> \<not> temp_named n"

definition gets :: "(string \<Rightarrow> string) \<Rightarrow> cache_op \<Rightarrow> string \<Rightarrow> bool" where
  "gets fname p n \<longleftrightarrow> (\<exists>k. p = GetOp k \<and> n = fname k)"

fun task_ok :: "(string \<Rightarrow> string) \<Rightarrow> (string \<Rightarrow> bytes set) \<Rightarrow> disk \<Rightarrow> cache_op \<Rightarrow> task \<Rightarrow> bool" where
  "task_ok fname S d p (SetStat n b) = sets_ok S n b"
| "task_ok fname S d p (SetCreate n b i) = sets_ok S n b"
| "task_ok fname S d p (SetWrite n tmp b i) = (sets_ok S n b \<and> temp_named tmp)"
| "task_ok fname S d p (SetClose n tmp b i) = (sets_ok S n b \<and> temp_named tmp \<and> holds d tmp b)"
| "task_ok fname S d p (SetChmod n tmp b i) = (sets_ok S n b \<and> temp_named tmp \<and> holds d tmp b)"
| "task_ok fname S d p (SetRename n tmp b i) = (sets_ok S n b \<and> temp_named tmp \<and> holds d tmp b)"
| "task_ok fname S d p (SetCleanup tmp e) = temp_named tmp"
| "task_ok fname S d p (GetRead n) = (gets fname p n \<and> \<not> temp_named n)"
| "task_ok fname S d p (GetStat n b) = (gets fname p n \<and> b \<in> S n)"
| "task_ok fname S d p (Done (Some b, e)) = (\<exists>n. gets fname p n \<and> b \<in> S n)"
| "task_ok fname S d p t = True"

lemma task_ok_frame:
  assumes "task_ok fname S d p t" "\<And>n. S n \<subseteq> S' n"
    and "\<And>m. tmp_of t = Some m \<Longrightarrow> temp_named m \<Longrightarrow> map_of d' m = map_of d m \<or> map_of d' m = None"
  shows "task_ok fname S' d' p t"
proof (cases t)
  case (Done r)
  with assms(1,2) show ?thesis by (cases r; cases "fst r") (auto dest: subsetD)
qed (use assms in \<open>auto simp: sets_ok_def holds_def subset_iff split: option.splits\<close>)

text \<open>What one step does to the directory.\<close>

lemma task_step_disk:
  assumes "task_step env t fc = (t', fc')"
  shows "map_of (fc_disk fc') m = map_of (fc_disk fc) m \<or> map_of (fc_disk fc') m = None
    \<or> tmp_of t' = Some m \<or> (\<exists>n tmp b i. t = SetRename n tmp b i \<and> m = n)"
  using assms
  by (cases t)
    (auto simp: Let_def done_miss_def done_hit_def miss_def hit_def write_tmp_def put_tmp_def
      os_remove_def os_rename_def split: option.splits prod.splits sum.splits if_splits)

lemma task_step_tmp:
  assumes "task_step env t fc = (t', fc')" "tmp_of t' = Some m"
  shows "tmp_of t = Some m \<or> tmp_of t = None \<and> m = tmp_name env"
  using assms
  by (cases t)
    (auto simp: Let_def done_miss_def done_hit_def split: option.splits prod.splits sum.splits if_splits)

lemma task_step_prefix:
  assumes "task_step env t fc = (t', fc')"
  shows "fc_key_prefix fc' = fc_key_prefix fc"
  using assms
  by (cases t)
    (auto simp: Let_def done_miss_def done_hit_def miss_def hit_def write_tmp_def put_tmp_def
      split: option.splits prod.splits sum.splits if_splits)
lemma entries_ok_delete: "entries_ok S d \<Longrightarrow> entries_ok S (AList.delete n d)"
  by (simp add: entries_ok_def)

lemma entries_ok_update:
  "entries_ok S d \<Longrightarrow> temp_named n \<or> content f \<in> S n \<Longrightarrow> entries_ok S (AList.update n f d)"
  by (simp add: entries_ok_def)

lemma task_step_ok:
  assumes "task_step env t fc = (t', fc')" "task_ok fname S (fc_disk fc) p t" "entries_ok S (fc_disk fc)"
    and "temp_named (tmp_name env)"
  shows "task_ok fname S (fc_disk fc') p t'" and "entries_ok S (fc_disk fc')"
proof -
  have r: "content f \<in> S n" if "map_of (fc_disk fc) n = Some f" "\<not> temp_named n" for n f
    using assms(3) that by (auto simp: entries_ok_def)
  show "task_ok fname S (fc_disk fc') p t'"
    using assms(1,2,4)
    by (cases t)
      (auto simp: Let_def done_miss_def done_hit_def miss_def hit_def write_tmp_def put_tmp_def
        holds_def os_read_file_def intro!: exI r
        split: option.splits prod.splits sum.splits if_splits)
  show "entries_ok S (fc_disk fc')"
    using assms
    by (cases t)
      (auto simp: Let_def done_miss_def done_hit_def miss_def hit_def write_tmp_def put_tmp_def
        os_remove_def os_rename_def holds_def sets_ok_def intro!: entries_ok_update entries_ok_delete
        split: option.splits prod.splits sum.splits if_splits)
qed

definition tasks_ok ::
    "(string \<Rightarrow> string) \<Rightarrow> (string \<Rightarrow> bytes set) \<Rightarrow> disk \<Rightarrow> (cache_op \<times> task) list \<Rightarrow> bool" where
  "tasks_ok fname S d ts \<longleftrightarrow> (\<forall>i<length ts. task_ok fname S d (fst (ts ! i)) (snd (ts ! i)))"

definition tmps_distinct :: "(cache_op \<times> task) list \<Rightarrow> bool" where
  "tmps_distinct ts \<longleftrightarrow>
     (\<forall>i j m. i < length ts \<and> j < length ts \<and> i \<noteq> j \<and> tmp_of (snd (ts ! i)) = Some m \<longrightarrow>
        tmp_of (snd (ts ! j)) \<noteq> Some m)"

definition stored_by :: "(string \<Rightarrow> string) \<Rightarrow> file_cache \<Rightarrow> (cache_op \<times> task) list \<Rightarrow> string \<Rightarrow> bytes set" where
  "stored_by sha fc0 ts = stored (key_to_filename sha fc0) (fc_disk fc0) (map fst ts)"

definition shared_ok :: "(string \<Rightarrow> string) \<Rightarrow> file_cache \<Rightarrow> shared_cache \<Rightarrow> bool" where
  "shared_ok sha fc0 s \<longleftrightarrow>
     (\<forall>t. \<not> temp_named (sha t)) \<and> fc_key_prefix (fst s) = fc_key_prefix fc0
     \<and> entries_ok (stored_by sha fc0 (snd s)) (fc_disk (fst s))
     \<and> tasks_ok (key_to_filename sha fc0) (stored_by sha fc0 (snd s)) (fc_disk (fst s)) (snd s)
     \<and> tmps_distinct (snd s)"

lemma tasks_ok_frame:
  assumes "tasks_ok fname S d ts" "\<And>n. S n \<subseteq> S' n"
    and "\<And>i m. i < length ts \<Longrightarrow> tmp_of (snd (ts ! i)) = Some m \<Longrightarrow> temp_named m \<Longrightarrow>
      map_of d' m = map_of d m \<or> map_of d' m = None"
  shows "tasks_ok fname S' d' ts"
  unfolding tasks_ok_def
proof (intro allI impI)
  fix i assume i: "i < length ts"
  with assms(1) have "task_ok fname S d (fst (ts ! i)) (snd (ts ! i))" by (simp add: tasks_ok_def)
  then show "task_ok fname S' d' (fst (ts ! i)) (snd (ts ! i))"
    by (rule task_ok_frame [OF _ assms(2) assms(3) [OF i]])
qed

lemma tasks_ok_snoc:
  "tasks_ok fname S d (ts @ [x]) \<longleftrightarrow> tasks_ok fname S d ts \<and> task_ok fname S d (fst x) (snd x)"
  by (auto simp: tasks_ok_def nth_append less_Suc_eq)

lemma tmps_distinct_snoc:
  "tmps_distinct ts \<Longrightarrow> tmp_of (snd x) = None \<Longrightarrow> tmps_distinct (ts @ [x])"
  by (auto simp: tmps_distinct_def nth_append less_Suc_eq)

lemma tmps_distinct_update:
  assumes "tmps_distinct ts" "\<And>j m. j < length ts \<Longrightarrow> j \<noteq> i \<Longrightarrow> tmp_of (snd x) = Some m \<Longrightarrow>
      tmp_of (snd (ts ! j)) \<noteq> Some m"
  shows "tmps_distinct (ts[i := x])"
  unfolding tmps_distinct_def
proof (intro allI impI notI)
  fix j k m
  assume *: "j < length (ts[i := x]) \<and> k < length (ts[i := x]) \<and> j \<noteq> k \<and> tmp_of (snd (ts[i := x] ! j)) = Some m"
    and k: "tmp_of (snd (ts[i := x] ! k)) = Some m"
  then consider "j = i" "k \<noteq> i" | "j \<noteq> i" "k = i" | "j \<noteq> i" "k \<noteq> i" by blast
  then show False
  proof cases
    case 1 with * k assms(2) [of k m] show False by (auto simp: nth_list_update)
  next
    case 2 with * k assms(2) [of j m] show False by (auto simp: nth_list_update)
  next
    case 3 with * k assms(1) show False by (auto simp: tmps_distinct_def)
  qed
qed

lemma task_of_tmp: "tmp_of (task_of sha env p fc) = None"
  by (cases p) (auto simp: get_task_def set_task_def del_task_def split: option.split)

lemma task_of_ok:
  assumes "\<forall>t. \<not> temp_named (sha t)" "fc_key_prefix fc = fc_key_prefix fc0"
    and "\<And>k b. p = SetOp k b \<Longrightarrow> b \<in> S (key_to_filename sha fc0 k)"
  shows "task_ok (key_to_filename sha fc0) S d p (task_of sha env p fc)"
  using assms
  by (cases p)
    (auto simp: get_task_def set_task_def del_task_def sets_ok_def gets_def key_to_filename_def
      split: option.split)

lemma entries_ok_mono: "entries_ok S d \<Longrightarrow> (\<And>n. S n \<subseteq> S' n) \<Longrightarrow> entries_ok S' d"
  unfolding entries_ok_def by blast

lemma update_metric_disk [simp]:
  "fc_disk (update_cache_size_metric env fc) = fc_disk fc"
  "fc_key_prefix (update_cache_size_metric env fc) = fc_key_prefix fc"
  by (simp_all add: update_cache_size_metric_def Let_def)

lemma shared_call_ok:
  assumes "shared_ok sha fc0 (fc, ts)"
  shows "shared_ok sha fc0 (fc, ts @ [(p, task_of sha env p fc)])"
proof -
  let ?t = "task_of sha env p fc" and ?f = "key_to_filename sha fc0"
  let ?S = "stored_by sha fc0 ts" and ?S' = "stored_by sha fc0 (ts @ [(p, ?t)])"
  have S: "?S n \<subseteq> ?S' n" for n unfolding stored_by_def by (rule stored_mono) auto
  have t: "task_ok ?f ?S' (fc_disk fc) p ?t"
    using assms by (intro task_of_ok) (auto simp: shared_ok_def stored_by_def stored_def)
  have a: "\<forall>t. \<not> temp_named (sha t)" "fc_key_prefix fc = fc_key_prefix fc0" "entries_ok ?S (fc_disk fc)"
    "tasks_ok ?f ?S (fc_disk fc) ts" "tmps_distinct ts"
    using assms unfolding shared_ok_def by simp_all
  have "tasks_ok ?f ?S' (fc_disk fc) ts" by (rule tasks_ok_frame [OF a(4) S]) simp
  with t have "tasks_ok ?f ?S' (fc_disk fc) (ts @ [(p, ?t)])"
    by (simp add: tasks_ok_snoc)
  moreover have "tmps_distinct (ts @ [(p, ?t)])" by (rule tmps_distinct_snoc [OF a(5)]) (simp add: task_of_tmp)
  moreover have "entries_ok ?S' (fc_disk fc)" by (rule entries_ok_mono [OF a(3) S])
  ultimately show ?thesis using a(1,2) unfolding shared_ok_def by simp
qed

lemma shared_step_ok:
  assumes "shared_ok sha fc0 (fc, ts)" "i < length ts" "ts ! i = (p, t)"
    and "fresh_tmp (tmp_name env) (fc, ts)" "task_step env t fc = (t', fc')"
  shows "shared_ok sha fc0 (fc', ts[i := (p, t')])"
proof -
  let ?f = "key_to_filename sha fc0" and ?ts = "ts[i := (p, t')]"
  let ?S = "stored_by sha fc0 ts"
  have "map fst ?ts = map fst ts" using assms(2,3) by (simp add: map_update list_update_same_conv)
  then have S: "stored_by sha fc0 ?ts = ?S" by (simp only: stored_by_def)
  have a: "\<forall>t. \<not> temp_named (sha t)" "fc_key_prefix fc = fc_key_prefix fc0" "entries_ok ?S (fc_disk fc)"
    "tasks_ok ?f ?S (fc_disk fc) ts" "tmps_distinct ts"
    using assms(1) unfolding shared_ok_def by simp_all
  have fr: "temp_named (tmp_name env)" "tmp_of (snd (ts ! j)) \<noteq> Some (tmp_name env)" if "j < length ts" for j
    using assms(4) that by (auto simp: fresh_tmp_def list_all_length case_prod_beta)
  have t: "task_ok ?f ?S (fc_disk fc) p t" using a(4) assms(2,3) unfolding tasks_ok_def by force
  note step = task_step_ok [OF assms(5) t a(3) fr(1) [OF assms(2)]]
  have tmps: "tmp_of (snd (ts ! j)) \<noteq> Some m" if "j < length ts" "j \<noteq> i" "tmp_of t' = Some m" for j m
  proof (cases "tmp_of t = Some m")
    case True
    then have "tmp_of (snd (ts ! i)) = Some m" using assms(3) by simp
    with a(5) assms(2) that(1,2) show ?thesis unfolding tmps_distinct_def by blast
  next
    case False
    with task_step_tmp [OF assms(5) that(3)] fr(2) [OF that(1)] show ?thesis by simp
  qed
  have ts: "task_ok ?f ?S (fc_disk fc') (fst (ts ! j)) (snd (ts ! j))" if j: "j < length ts" "j \<noteq> i" for j
  proof (rule task_ok_frame [OF _ order_refl])
    show "task_ok ?f ?S (fc_disk fc) (fst (ts ! j)) (snd (ts ! j))" using a(4) j(1) by (simp add: tasks_ok_def)
    fix m assume m: "tmp_of (snd (ts ! j)) = Some m" "temp_named m"
    have "\<not> (\<exists>n tmp b i. t = SetRename n tmp b i \<and> m = n)" using t m(2) by (auto simp: sets_ok_def)
    with task_step_disk [OF assms(5), of m] tmps [OF j] m(1)
    show "map_of (fc_disk fc') m = map_of (fc_disk fc) m \<or> map_of (fc_disk fc') m = None" by auto
  qed
  have "tasks_ok ?f ?S (fc_disk fc') ?ts"
    unfolding tasks_ok_def
  proof (intro allI impI)
    fix j assume "j < length ?ts"
    with ts step(1) show "task_ok ?f ?S (fc_disk fc') (fst (?ts ! j)) (snd (?ts ! j))"
      by (cases "j = i") simp_all
  qed
  moreover have "tmps_distinct ?ts" by (rule tmps_distinct_update [OF a(5)]) (simp add: tmps)
  ultimately show ?thesis
    using a(1,2) step(2) task_step_prefix [OF assms(5)] unfolding shared_ok_def by (simp add: S)
qed

lemma shared_trans_ok:
  assumes "shared_ok sha fc0 s" "shared_trans sha s s'"
  shows "shared_ok sha fc0 s'"
  using assms(2)
proof cases
  case (shared_call fc ts p env)
  then show ?thesis using assms(1) shared_call_ok by simp
next
  case (shared_step i ts p t env fc t' fc')
  then show ?thesis using assms(1) shared_step_ok by simp
next
  case (shared_remove fc ts name)
  have "tasks_ok f S d ts \<Longrightarrow> tasks_ok f S (AList.delete name d) ts" for f S d ts
    by (rule tasks_ok_frame) auto
  with shared_remove assms(1) entries_ok_delete show ?thesis unfolding shared_ok_def by simp
next
  case (shared_refresh fc ts env)
  then show ?thesis using assms(1) unfolding shared_ok_def by simp
qed

lemma shared_start_ok: "shared_start sha fc0 s \<Longrightarrow> shared_ok sha fc0 s"
  by (auto simp: shared_start_def shared_ok_def entries_ok_def stored_by_def stored_def tasks_ok_def tmps_distinct_def)

interpretation sc: invariant_system "shared_start sha fc0" "shared_trans sha" "shared_ok sha fc0"
  for sha fc0
  by unfold_locales (blast intro: shared_start_ok, blast intro: shared_trans_ok)

section \<open>Schedules\<close>

text \<open>An interleaving written out: what happens next, and in which environment.\<close>

datatype sched = Begin io_env cache_op | Step nat io_env

fun sched_env :: "sched \<Rightarrow> io_env" where
  "sched_env (Begin env p) = env"
| "sched_env (Step i env) = env"

fun run_sched :: "(string \<Rightarrow> string) \<Rightarrow> sched list \<Rightarrow> shared_cache \<Rightarrow> shared_cache option" where
  "run_sched sha [] s = Some s"
| "run_sched sha (Begin env p # xs) (fc, ts) = run_sched sha xs (fc, ts @ [(p, task_of sha env p fc)])"
| "run_sched sha (Step i env # xs) (fc, ts) =
     (if i < length ts \<and> fresh_tmp (tmp_name env) (fc, ts)
      then (case task_step env (snd (ts ! i)) fc of
          (t, fc') \<Rightarrow> run_sched sha xs (fc', ts[i := (fst (ts ! i), t)]))
      else None)"

lemma run_sched_reachable:
  "run_sched sha xs s = Some s' \<Longrightarrow> reachable start (shared_trans sha) s \<Longrightarrow>
     reachable start (shared_trans sha) s'"
proof (induction sha xs s rule: run_sched.induct)
  case (2 sha env p xs fc ts)
  then show ?case using reach_step [OF "2.prems"(2) shared_call] by simp
next
  case (3 sha i env xs fc ts)
  obtain t fc' where st: "task_step env (snd (ts ! i)) fc = (t, fc')" by fastforce
  have g: "i < length ts" "fresh_tmp (tmp_name env) (fc, ts)"
    and r: "run_sched sha xs (fc', ts[i := (fst (ts ! i), t)]) = Some s'"
    using "3.prems"(1) st by (auto split: if_splits)
  have "shared_trans sha (fc, ts) (fc', ts[i := (fst (ts ! i), t)])"
    by (rule shared_step [OF g(1) _ g(2) st]) simp
  with "3.IH" [OF conjI [OF g] st [symmetric]] r reach_step [OF "3.prems"(2)] show ?case by simp
qed simp

section \<open>Properties\<close>

text \<open>
  C16: However calls and removals interleave, every entry of the directory holds the whole content
  of one \<open>Set\<close> of its key, or the one it had at the start, and so does every answer
  of a \<open>Get\<close>: no reader sees a partial write, or the data of another key unless the
  digests collide.
\<close>

theorem shared_entries_whole:
  assumes "reachable (shared_start sha fc0) (shared_trans sha) (fc, ts)"
  shows "(if temp_named n then True
      else set_option (map_option content (map_of (fc_disk fc) n))
        \<subseteq> stored (key_to_filename sha fc0) (fc_disk fc0) (map fst ts) n)
    \<and> (if (GetOp k, Done (Some b, e)) \<in> set ts
       then b \<in> stored (key_to_filename sha fc0) (fc_disk fc0) (map fst ts) (key_to_filename sha fc0 k)
       else True)"
proof -
  from sc.inv_reachable [OF assms] have
    "entries_ok (stored (key_to_filename sha fc0) (fc_disk fc0) (map fst ts)) (fc_disk fc)"
    and t: "tasks_ok (key_to_filename sha fc0) (stored (key_to_filename sha fc0) (fc_disk fc0) (map fst ts))
      (fc_disk fc) ts"
    by (simp_all add: shared_ok_def stored_by_def)
  moreover have "\<exists>m. gets (key_to_filename sha fc0) (GetOp k) m
      \<and> b \<in> stored (key_to_filename sha fc0) (fc_disk fc0) (map fst ts) m"
    if "(GetOp k, Done (Some b, e)) \<in> set ts"
    using t that by (fastforce simp: tasks_ok_def in_set_conv_nth)
  ultimately show ?thesis by (auto simp: entries_ok_def gets_def)
qed

definition env_at :: "instant \<Rightarrow> nat \<Rightarrow> io_env" where
  "env_at t i = no_faults t (''.httpc-tmp-'' @ replicate i (CHR ''0''))"

text \<open>A lookup between the temp file and the rename of a store.\<close>

definition example_schedule :: "sched list" where
  "example_schedule =
     Begin (env_at 12 9) (SetOp ''k'' ''xyz'') # map (\<lambda>i. Step 0 (env_at 12 i)) [9, 1, 9, 9]
     @ Begin (env_at 12 9) (GetOp ''k'') # map (\<lambda>j. Step j (env_at 12 9)) [1, 0, 1, 0, 0, 0]"

theorem shared_entries_whole_witness:
  "\<exists>fc e. run_sched example_sha example_schedule (example_cache 5, []) =
       Some (fc, [(SetOp ''k'' ''xyz'', Done (None, None)), (GetOp ''k'', Done (Some ''abc'', e))])
     \<and> ''abc'' \<in> stored (key_to_filename example_sha (example_cache 5)) (fc_disk (example_cache 5))
         [SetOp ''k'' ''xyz'', GetOp ''k''] (key_to_filename example_sha (example_cache 5) ''k'')"
proof -
  let ?ts = "[(SetOp ''k'' ''xyz'', Done (None, None)), (GetOp ''k'', Done (Some ''abc'', None))]"
  have "map_option snd (run_sched example_sha example_schedule (example_cache 5, [])) = Some ?ts"
    by code_simp
  then obtain fc where r: "run_sched example_sha example_schedule (example_cache 5, []) = Some (fc, ?ts)"
    by auto
  have "reachable (shared_start example_sha (example_cache 5)) (shared_trans example_sha) (example_cache 5, [])"
    by (rule reach_start) (simp add: shared_start_def temp_named_def example_sha_def)
  from shared_entries_whole [OF run_sched_reachable [OF r this], of "''x''" "''k''" "''abc''" None] r
  show ?thesis by auto
qed

text \<open>Schedules at one clock reading, with the interleavings of the next property.\<close>

definition all_at :: "instant \<Rightarrow> sched list \<Rightarrow> bool" where
  "all_at t xs \<longleftrightarrow> list_all (\<lambda>x. io_now (sched_env x) = t) xs"

definition stale_schedule :: "sched list" where
  "stale_schedule =
     [Begin (env_at 20 9) (GetOp ''k''), Step 0 (env_at 20 9), Begin (env_at 20 9) (SetOp ''k'' ''xyz'')]
     @ map (\<lambda>i. Step 1 (env_at 20 i)) [9, 1, 9, 9, 9, 9, 9, 9] @ [Step 0 (env_at 20 9)]"

definition lost_schedule :: "sched list" where
  "lost_schedule =
     [Begin (env_at 20 9) (GetOp ''k''), Step 0 (env_at 20 9), Step 0 (env_at 20 9),
      Begin (env_at 20 9) (SetOp ''k'' ''xyz'')]
     @ map (\<lambda>i. Step 1 (env_at 20 i)) [9, 1, 9, 9, 9, 9, 9, 9] @ [Step 0 (env_at 20 9)]"

text \<open>
  C33: At a time when a lone \<open>Get\<close> finds an entry expired, a \<open>Set\<close>
  running beside it can make it answer the expired data, because the age is taken from the new
  file, and can lose its own entry to the removal of the expired one.
\<close>

theorem expired_get_races:
  "fst (cache_get example_sha (no_faults 20 ''.t'') ''k'' (example_cache 5)) = (None, None)
   \<and> (\<exists>xs fc. all_at 20 xs \<and> run_sched example_sha xs (example_cache 5, []) =
         Some (fc, [(GetOp ''k'', Done (Some ''abc'', None)), (SetOp ''k'' ''xyz'', Done (None, None))]))
   \<and> (\<exists>xs fc. all_at 20 xs \<and> run_sched example_sha xs (example_cache 5, []) =
         Some (fc, [(GetOp ''k'', Done (None, None)), (SetOp ''k'' ''xyz'', Done (None, None))])
       \<and> fst (cache_get example_sha (no_faults 20 ''.t'') ''k'' fc) = (None, None))"
proof -
  let ?final = "\<lambda>xs. run_sched example_sha xs (example_cache 5, [])"
  have "fst (cache_get example_sha (no_faults 20 ''.t'') ''k'' (example_cache 5)) = (None, None)" by code_simp
  moreover have "map_option snd (?final stale_schedule) =
      Some [(GetOp ''k'', Done (Some ''abc'', None)), (SetOp ''k'' ''xyz'', Done (None, None))]" by code_simp
  moreover have "map_option snd (?final lost_schedule) =
      Some [(GetOp ''k'', Done (None, None)), (SetOp ''k'' ''xyz'', Done (None, None))]" by code_simp
  moreover have "map_option (\<lambda>s. fst (cache_get example_sha (no_faults 20 ''.t'') ''k'' (fst s))) (?final lost_schedule) =
      Some (None, None)" by code_simp
  moreover have "all_at 20 stale_schedule" "all_at 20 lost_schedule" by code_simp+
  ultimately show ?thesis by (auto simp del: run_sched.simps)
qed

text \<open>Two stores that both look up the old size before either goes on.\<close>

definition drift_schedule :: "sched list" where
  "drift_schedule =
     [Begin (env_at 12 9) (SetOp ''j'' ''xyz''), Begin (env_at 12 9) (SetOp ''j'' ''xyz''),
      Step 0 (env_at 12 9), Step 1 (env_at 12 9)]
     @ map (\<lambda>i. Step 0 (env_at 12 i)) [1, 9, 9, 9, 9, 9, 9]
     @ map (\<lambda>i. Step 1 (env_at 12 i)) [2, 9, 9, 9, 9, 9, 9]"

definition serial_schedule :: "sched list" where
  "serial_schedule =
     Begin (env_at 12 9) (SetOp ''j'' ''xyz'') # map (\<lambda>i. Step 0 (env_at 12 i)) [9, 1, 9, 9, 9, 9, 9, 9]
     @ Begin (env_at 12 9) (SetOp ''j'' ''xyz'') # map (\<lambda>i. Step 1 (env_at 12 i)) [9, 2, 9, 9, 9, 9, 9, 9]"

definition fault_free :: "sched \<Rightarrow> bool" where
  "fault_free x \<longleftrightarrow> sched_env x = no_faults (io_now (sched_env x)) (tmp_name (sched_env x))"

lemma fault_free_env_at [simp]: "fault_free (Begin (env_at t i) p)" "fault_free (Step j (env_at t i))"
  by (simp_all add: fault_free_def env_at_def)


end
