(* ===== verification/BlocklistCopies.thy ===== *)
theory BlocklistCopies
  imports PolicyProps
begin

text \<open>
  The exported copies of the blocklists (\<open>PrivateIPNets\<close> and \<open>MetadataIPNets\<close> in
  \<open>ssrf.go\<close>). Their promise is one about sharing, so here the lists live in a store: slices of
  pointers, the \<open>net.IPNet\<close> objects these point to, and their byte slices.
\<close>

section \<open>The store\<close>

text \<open>
  A slice is nil or the address of the array it spans; addresses are never reused. \<open>None\<close> in an
  array of pointers is a nil pointer.
\<close>

record net_object =
  ip_at :: "nat option"
  mask_at :: "nat option"

record net_store =
  byte_arrays :: "nat \<rightharpoonup> byte list"
  net_objects :: "nat \<rightharpoonup> net_object"
  ptr_arrays :: "nat \<rightharpoonup> nat option list"
  next_free :: nat

definition read_bytes :: "net_store \<Rightarrow> nat option \<Rightarrow> byte list" where
  "read_bytes st s =
     (case s of None \<Rightarrow> [] | Some a \<Rightarrow> (case byte_arrays st a of None \<Rightarrow> [] | Some bs \<Rightarrow> bs))"

definition read_net :: "net_store \<Rightarrow> nat option \<Rightarrow> ipnet option" where
  "read_net st p =
     (case p of
        None \<Rightarrow> None
      | Some a \<Rightarrow>
          map_option (\<lambda>n. \<lparr>net_ip = read_bytes st (ip_at n), net_mask = read_bytes st (mask_at n)\<rparr>)
            (net_objects st a))"

definition read_list :: "net_store \<Rightarrow> nat \<Rightarrow> ipnet option list option" where
  "read_list st a = map_option (map (read_net st)) (ptr_arrays st a)"

section \<open>Copying\<close>

text \<open>\<open>append\<close> of bytes to a nil slice: nil for no bytes, a new array otherwise.\<close>

definition append_nil :: "byte list \<Rightarrow> net_store \<Rightarrow> nat option \<times> net_store" where
  "append_nil bs st =
     (if bs = [] then (None, st)
      else (Some (next_free st),
        st\<lparr>byte_arrays := (byte_arrays st)(next_free st \<mapsto> bs), next_free := next_free st + 1\<rparr>))"

definition new_net :: "byte list \<Rightarrow> byte list \<Rightarrow> net_store \<Rightarrow> nat \<times> net_store" where
  "new_net ip bs st =
     (case append_nil ip st of
        (i, st1) \<Rightarrow>
          (case append_nil bs st1 of
             (m, st2) \<Rightarrow>
               (next_free st2,
                st2\<lparr>net_objects := (net_objects st2)(next_free st2 \<mapsto> \<lparr>ip_at = i, mask_at = m\<rparr>),
                  next_free := next_free st2 + 1\<rparr>)))"

text \<open>The loop of \<open>cloneIPNets\<close>; a nil pointer in the list panics.\<close>

fun clone_loop :: "nat option list \<Rightarrow> net_store \<Rightarrow> (nat option list \<times> net_store) option" where
  "clone_loop [] st = Some ([], st)"
| "clone_loop (p # ps) st =
     (case read_net st p of
        None \<Rightarrow> None
      | Some n \<Rightarrow>
          (case new_net (net_ip n) (net_mask n) st of
             (q, st1) \<Rightarrow> map_option (\<lambda>(qs, st2). (Some q # qs, st2)) (clone_loop ps st1)))"

definition clone_list :: "nat \<Rightarrow> net_store \<Rightarrow> (nat \<times> net_store) option" where
  "clone_list a st =
     (case ptr_arrays st a of
        None \<Rightarrow> None
      | Some ps \<Rightarrow>
          map_option
            (\<lambda>(qs, st'). (next_free st',
               st'\<lparr>ptr_arrays := (ptr_arrays st')(next_free st' \<mapsto> qs), next_free := next_free st' + 1\<rparr>))
            (clone_loop ps st))"

section \<open>What a caller does with a copy\<close>

text \<open>
  Assignments through a list it was given: to a byte of an IP or a mask, to either slice of an
  object, to an element of the list. An index out of range panics and changes nothing.
\<close>

datatype caller_write =
    WriteIPByte nat nat byte
  | WriteMaskByte nat nat byte
  | SetIP nat "byte list"
  | SetMask nat "byte list"
  | SetElem nat "ipnet option"
  | MoveElem nat nat

definition object_of :: "net_store \<Rightarrow> nat \<Rightarrow> nat \<Rightarrow> (nat \<times> net_object) option" where
  "object_of st out i =
     (case ptr_arrays st out of
        None \<Rightarrow> None
      | Some ps \<Rightarrow>
          if i < length ps
          then (case ps ! i of None \<Rightarrow> None | Some a \<Rightarrow> map_option (\<lambda>n. (a, n)) (net_objects st a))
          else None)"

definition write_byte :: "nat option \<Rightarrow> nat \<Rightarrow> byte \<Rightarrow> net_store \<Rightarrow> net_store" where
  "write_byte s j b st =
     (case s of
        None \<Rightarrow> st
      | Some a \<Rightarrow>
          (case byte_arrays st a of
             None \<Rightarrow> st
           | Some bs \<Rightarrow> st\<lparr>byte_arrays := (byte_arrays st)(a \<mapsto> bs[j := b])\<rparr>))"

definition set_elem :: "nat \<Rightarrow> nat \<Rightarrow> nat option \<Rightarrow> net_store \<Rightarrow> net_store" where
  "set_elem out i p st =
     (case ptr_arrays st out of
        None \<Rightarrow> st
      | Some ps \<Rightarrow> st\<lparr>ptr_arrays := (ptr_arrays st)(out \<mapsto> ps[i := p])\<rparr>)"

fun caller_step :: "nat \<Rightarrow> caller_write \<Rightarrow> net_store \<Rightarrow> net_store" where
  "caller_step out (WriteIPByte i j b) st =
     (case object_of st out i of None \<Rightarrow> st | Some (a, n) \<Rightarrow> write_byte (ip_at n) j b st)"
| "caller_step out (WriteMaskByte i j b) st =
     (case object_of st out i of None \<Rightarrow> st | Some (a, n) \<Rightarrow> write_byte (mask_at n) j b st)"
| "caller_step out (SetIP i bs) st =
     (case append_nil bs st of
        (s, st1) \<Rightarrow>
          (case object_of st1 out i of
             None \<Rightarrow> st1
           | Some (a, n) \<Rightarrow> st1\<lparr>net_objects := (net_objects st1)(a \<mapsto> n\<lparr>ip_at := s\<rparr>)\<rparr>))"
| "caller_step out (SetMask i bs) st =
     (case append_nil bs st of
        (s, st1) \<Rightarrow>
          (case object_of st1 out i of
             None \<Rightarrow> st1
           | Some (a, n) \<Rightarrow> st1\<lparr>net_objects := (net_objects st1)(a \<mapsto> n\<lparr>mask_at := s\<rparr>)\<rparr>))"
| "caller_step out (SetElem i n) st =
     (case n of
        None \<Rightarrow> set_elem out i None st
      | Some n \<Rightarrow> (case new_net (net_ip n) (net_mask n) st of (q, st1) \<Rightarrow> set_elem out i (Some q) st1))"
| "caller_step out (MoveElem i j) st =
     (case ptr_arrays st out of
        None \<Rightarrow> st
      | Some ps \<Rightarrow> if j < length ps then set_elem out i (ps ! j) st else st)"

text \<open>
  The package's two lists and the lists handed out so far. A caller asks for another copy or
  writes through one it has.
\<close>

record package_lists =
  private_list :: nat
  metadata_list :: nat

definition get_private_ip_nets :: "package_lists \<Rightarrow> net_store \<Rightarrow> (nat \<times> net_store) option" where
  "get_private_ip_nets pk st = clone_list (private_list pk) st"

definition get_metadata_ip_nets :: "package_lists \<Rightarrow> net_store \<Rightarrow> (nat \<times> net_store) option" where
  "get_metadata_ip_nets pk st = clone_list (metadata_list pk) st"

inductive store_trans :: "package_lists \<Rightarrow> net_store \<times> nat set \<Rightarrow> net_store \<times> nat set \<Rightarrow> bool"
  for pk :: package_lists where
  call_private: "get_private_ip_nets pk st = Some (out, st') \<Longrightarrow> store_trans pk (st, outs) (st', insert out outs)"
| call_metadata: "get_metadata_ip_nets pk st = Some (out, st') \<Longrightarrow> store_trans pk (st, outs) (st', insert out outs)"
| caller_writes: "out \<in> outs \<Longrightarrow> store_trans pk (st, outs) (caller_step out w st, outs)"

section \<open>Two separate parts of the store\<close>

text \<open>
  The package's memory is what lies below the address \<open>b\<close> that was free at the start. It is
  closed: nothing in it points to the other side, and the other side never points back.
\<close>

definition slice_above :: "nat \<Rightarrow> nat option \<Rightarrow> bool" where
  "slice_above b s \<longleftrightarrow> (case s of None \<Rightarrow> True | Some a \<Rightarrow> b \<le> a)"

definition caller_side :: "nat \<Rightarrow> net_store \<Rightarrow> bool" where
  "caller_side b st \<longleftrightarrow> b \<le> next_free st
     \<and> (\<forall>a n. b \<le> a \<and> net_objects st a = Some n \<longrightarrow> slice_above b (ip_at n) \<and> slice_above b (mask_at n))
     \<and> (\<forall>a ps. b \<le> a \<and> ptr_arrays st a = Some ps \<longrightarrow> list_all (slice_above b) ps)"

definition same_below :: "nat \<Rightarrow> net_store \<Rightarrow> net_store \<Rightarrow> bool" where
  "same_below b st st' \<longleftrightarrow>
     (\<forall>a<b. byte_arrays st' a = byte_arrays st a \<and> net_objects st' a = net_objects st a
       \<and> ptr_arrays st' a = ptr_arrays st a)"

lemma same_below_refl [simp]: "same_below b st st"
  by (simp add: same_below_def)

lemma same_below_trans: "same_below b st st1 \<Longrightarrow> same_below b st1 st2 \<Longrightarrow> same_below b st st2"
  by (simp add: same_below_def)

text \<open>One step of the store that keeps the sides apart.\<close>

definition apart :: "nat \<Rightarrow> net_store \<Rightarrow> net_store \<Rightarrow> bool" where
  "apart b st st' \<longleftrightarrow> same_below b st st' \<and> caller_side b st'"

lemma apart_trans: "apart b st st1 \<Longrightarrow> apart b st1 st2 \<Longrightarrow> apart b st st2"
  by (auto simp: apart_def intro: same_below_trans)

lemma append_nil_apart:
  assumes "append_nil bs st = (s, st')" "caller_side b st"
  shows "apart b st st'" and "slice_above b s"
  using assms
  by (auto simp: append_nil_def apart_def caller_side_def same_below_def slice_above_def split: if_splits)

lemma new_net_apart:
  assumes "new_net ip bs st = (q, st')" "caller_side b st"
  shows "apart b st st' \<and> b \<le> q"
proof -
  obtain i st1 m st2 where s: "append_nil ip st = (i, st1)" "append_nil bs st1 = (m, st2)"
    by (metis surj_pair)
  note 1 = append_nil_apart [OF s(1) assms(2)]
  then have "caller_side b st1" by (simp add: apart_def)
  note 2 = append_nil_apart [OF s(2) this]
  have "apart b st2 st' \<and> b \<le> q"
    using assms(1) s 1 2 by (auto simp: new_net_def apart_def caller_side_def same_below_def split: if_splits)
  with 1(1) 2(1) show ?thesis by (blast intro: apart_trans)
qed

lemma clone_loop_apart:
  "clone_loop ps st = Some (qs, st') \<Longrightarrow> caller_side b st \<Longrightarrow>
     apart b st st' \<and> list_all (slice_above b) qs"
proof (induction ps arbitrary: st qs)
  case (Cons p ps)
  then obtain n where n: "read_net st p = Some n" by (auto split: option.splits)
  obtain q st1 where q: "new_net (net_ip n) (net_mask n) st = (q, st1)" by fastforce
  obtain qs' where c: "clone_loop ps st1 = Some (qs', st')" "qs = Some q # qs'"
    using Cons.prems(1) n q by auto
  note 1 = new_net_apart [OF q Cons.prems(2)]
  then have "caller_side b st1" by (simp add: apart_def)
  from Cons.IH [OF c(1) this] 1 show ?case
    by (auto simp: c(2) slice_above_def intro: apart_trans)
qed (simp add: apart_def)

lemma clone_list_apart:
  assumes "clone_list a st = Some (out, st')" "caller_side b st"
  shows "apart b st st' \<and> b \<le> out"
proof -
  obtain ps qs st1 where c: "clone_loop ps st = Some (qs, st1)" and out: "out = next_free st1"
    and st': "st' = st1\<lparr>ptr_arrays := (ptr_arrays st1)(next_free st1 \<mapsto> qs), next_free := next_free st1 + 1\<rparr>"
    using assms(1) by (auto simp: clone_list_def split: option.splits)
  note 1 = clone_loop_apart [OF c assms(2)]
  then have "apart b st1 st' \<and> b \<le> out"
    by (auto simp: out st' apart_def caller_side_def same_below_def)
  with 1 show ?thesis by (blast intro: apart_trans)
qed

lemma object_of_above:
  assumes "object_of st out i = Some (a, n)" "caller_side b st" "b \<le> out"
  shows "b \<le> a \<and> net_objects st a = Some n \<and> slice_above b (ip_at n) \<and> slice_above b (mask_at n)"
proof -
  obtain ps where ps: "ptr_arrays st out = Some ps" "i < length ps" "ps ! i = Some a" "net_objects st a = Some n"
    using assms(1) by (auto simp: object_of_def split: option.splits if_splits)
  have "list_all (slice_above b) ps" using assms(2,3) ps(1) unfolding caller_side_def by blast
  with ps(2,3) have "b \<le> a" by (auto simp: list_all_length slice_above_def)
  with ps(4) assms(2) show ?thesis unfolding caller_side_def by blast
qed

lemma write_byte_apart: "caller_side b st \<Longrightarrow> slice_above b s \<Longrightarrow> apart b st (write_byte s j x st)"
  by (auto simp: write_byte_def apart_def caller_side_def same_below_def slice_above_def split: option.splits)

lemma list_all_update: "list_all P xs \<Longrightarrow> P x \<Longrightarrow> list_all P (xs[i := x])"
  by (auto simp: list_all_iff dest!: subsetD [OF set_update_subset_insert])

lemma set_elem_apart:
  "caller_side b st \<Longrightarrow> b \<le> out \<Longrightarrow> slice_above b p \<Longrightarrow> apart b st (set_elem out i p st)"
  by (auto simp: set_elem_def apart_def caller_side_def same_below_def list_all_update split: option.splits)

lemma put_object_apart:
  assumes "caller_side b st" "b \<le> a" "slice_above b (ip_at n)" "slice_above b (mask_at n)"
  shows "apart b st (st\<lparr>net_objects := (net_objects st)(a \<mapsto> n)\<rparr>)"
  using assms by (auto simp: apart_def caller_side_def same_below_def)

lemma caller_step_apart:
  assumes "caller_side b st" "b \<le> out"
  shows "apart b st (caller_step out w st)"
proof -
  have refl: "apart b st st" using assms(1) by (simp add: apart_def)
  have put: "apart b st (case object_of st1 out i of
        None \<Rightarrow> st1
      | Some (a, n) \<Rightarrow> st1\<lparr>net_objects := (net_objects st1)(a \<mapsto> f n)\<rparr>)"
    if "append_nil bs st = (s, st1)"
      and "\<And>n. slice_above b (ip_at n) \<and> slice_above b (mask_at n) \<and> slice_above b s \<Longrightarrow>
        slice_above b (ip_at (f n)) \<and> slice_above b (mask_at (f n))" for bs s st1 i f
  proof -
    note 1 = append_nil_apart [OF that(1) assms(1)]
    then have c: "caller_side b st1" by (simp add: apart_def)
    show ?thesis
    proof (cases "object_of st1 out i")
      case (Some x)
      obtain a n where x: "x = (a, n)" by fastforce
      have "b \<le> a" "slice_above b (ip_at (f n))" "slice_above b (mask_at (f n))"
        using object_of_above [OF _ c assms(2)] Some x that(2) 1(2) by blast+
      from put_object_apart [OF c this] 1(1) Some x show ?thesis by (auto intro: apart_trans)
    qed (use 1 in simp)
  qed
  show ?thesis
  proof (cases w)
    case (WriteIPByte i j x)
    with refl object_of_above [OF _ assms] show ?thesis
      by (auto split: option.split intro!: write_byte_apart [OF assms(1)])
  next
    case (WriteMaskByte i j x)
    with refl object_of_above [OF _ assms] show ?thesis
      by (auto split: option.split intro!: write_byte_apart [OF assms(1)])
  next
    case (SetIP i bs)
    obtain s st1 where "append_nil bs st = (s, st1)" by fastforce
    with put [OF this, of "ip_at_update (\<lambda>_. s)" i] SetIP show ?thesis by simp
  next
    case (SetMask i bs)
    obtain s st1 where "append_nil bs st = (s, st1)" by fastforce
    with put [OF this, of "mask_at_update (\<lambda>_. s)" i] SetMask show ?thesis by simp
  next
    case (SetElem i n)
    show ?thesis
    proof (cases n)
      case None
      with SetElem assms show ?thesis by (simp add: set_elem_apart slice_above_def)
    next
      case (Some m)
      obtain q st1 where q: "new_net (net_ip m) (net_mask m) st = (q, st1)" by fastforce
      note 1 = new_net_apart [OF q assms(1)]
      then have "apart b st1 (set_elem out i (Some q) st1)"
        using assms(2) by (intro set_elem_apart) (auto simp: apart_def slice_above_def)
      with 1 q SetElem Some show ?thesis by (auto intro: apart_trans)
    qed
  next
    case (MoveElem i j)
    have "slice_above b (ps ! j)" if "ptr_arrays st out = Some ps" "j < length ps" for ps
      using assms that unfolding caller_side_def by (auto simp: list_all_length)
    with MoveElem refl assms show ?thesis by (auto split: option.split intro: set_elem_apart)
  qed
qed

section \<open>The invariant\<close>

text \<open>A list of the package: everything it reaches lies in the package's memory.\<close>

definition slice_below :: "nat \<Rightarrow> nat option \<Rightarrow> bool" where
  "slice_below b s \<longleftrightarrow> (case s of None \<Rightarrow> True | Some a \<Rightarrow> a < b)"

definition net_below :: "nat \<Rightarrow> net_store \<Rightarrow> nat option \<Rightarrow> bool" where
  "net_below b st p \<longleftrightarrow> slice_below b p
     \<and> (case p of
          None \<Rightarrow> True
        | Some a \<Rightarrow>
            (case net_objects st a of
               None \<Rightarrow> True
             | Some n \<Rightarrow> slice_below b (ip_at n) \<and> slice_below b (mask_at n)))"

definition list_below :: "nat \<Rightarrow> net_store \<Rightarrow> nat \<Rightarrow> bool" where
  "list_below b st a \<longleftrightarrow> a < b
     \<and> (case ptr_arrays st a of None \<Rightarrow> True | Some ps \<Rightarrow> list_all (net_below b st) ps)"

lemma read_bytes_below: "same_below b st st' \<Longrightarrow> slice_below b s \<Longrightarrow> read_bytes st' s = read_bytes st s"
  by (auto simp: same_below_def slice_below_def read_bytes_def split: option.splits)

lemma read_net_below:
  assumes "same_below b st st'" "net_below b st p"
  shows "read_net st' p = read_net st p"
proof (cases p)
  case (Some a)
  then have "net_objects st' a = net_objects st a"
    using assms by (simp add: net_below_def slice_below_def same_below_def)
  with Some assms(2) read_bytes_below [OF assms(1)] show ?thesis
    by (cases "net_objects st a") (simp_all add: read_net_def net_below_def)
qed (simp add: read_net_def)

lemma net_below_same: "same_below b st st' \<Longrightarrow> net_below b st p \<Longrightarrow> net_below b st' p"
  by (cases p) (simp_all add: net_below_def slice_below_def same_below_def)

lemma net_below_mono: "net_below b st p \<Longrightarrow> b \<le> c \<Longrightarrow> net_below c st p"
  unfolding net_below_def slice_below_def by (auto split: option.splits)

lemma read_list_below:
  assumes "same_below b st st'" "list_below b st a"
  shows "read_list st' a = read_list st a"
proof -
  have "ptr_arrays st' a = ptr_arrays st a"
    using assms by (simp add: list_below_def same_below_def)
  with assms show ?thesis
    by (cases "ptr_arrays st a") (auto simp: read_list_def list_below_def list_all_iff intro!: read_net_below)
qed

lemma list_below_same:
  assumes "same_below b st st'" "list_below b st a"
  shows "list_below b st' a"
proof -
  have "ptr_arrays st' a = ptr_arrays st a"
    using assms by (simp add: list_below_def same_below_def)
  with assms(2) net_below_same [OF assms(1)] show ?thesis
    by (auto simp: list_below_def list_all_iff split: option.splits)
qed

text \<open>A copy reads like its original, now and after any later allocation.\<close>

definition grows :: "net_store \<Rightarrow> net_store \<Rightarrow> bool" where
  "grows st st' \<longleftrightarrow> same_below (next_free st) st st' \<and> next_free st \<le> next_free st'"

lemma grows_trans: "grows st st1 \<Longrightarrow> grows st1 st2 \<Longrightarrow> grows st st2"
  by (auto simp: grows_def same_below_def)

lemma new_net_reads:
  assumes "new_net ip bs st = (q, st')"
  shows "grows st st' \<and> net_below (next_free st') st' (Some q)
    \<and> read_net st' (Some q) = Some \<lparr>net_ip = ip, net_mask = bs\<rparr>"
  using assms
  by (auto simp: new_net_def append_nil_def grows_def same_below_def net_below_def slice_below_def
      read_net_def read_bytes_def split: if_splits)

lemma clone_loop_reads:
  "map (read_net st) ps = map Some ns \<Longrightarrow> list_all (net_below (next_free st) st) ps \<Longrightarrow>
     \<exists>qs st'. clone_loop ps st = Some (qs, st') \<and> grows st st' \<and> map (read_net st') qs = map Some ns
       \<and> list_all (net_below (next_free st') st') qs"
proof (induction ps arbitrary: st ns)
  case Nil
  then show ?case by (simp add: grows_def)
next
  case (Cons p ps)
  then obtain n ms where ns: "ns = n # ms" "read_net st p = Some n" "map (read_net st) ps = map Some ms"
    by (cases ns) auto
  obtain q st1 where q: "new_net (net_ip n) (net_mask n) st = (q, st1)" by fastforce
  note 1 = new_net_reads [OF q]
  then have g: "same_below (next_free st) st st1" "next_free st \<le> next_free st1" by (simp_all add: grows_def)
  have ps: "list_all (net_below (next_free st) st) ps" using Cons.prems(2) by simp
  have "map (read_net st1) ps = map (read_net st) ps"
    by (rule map_cong [OF refl]) (use ps read_net_below [OF g(1)] in \<open>simp add: list_all_iff\<close>)
  then have "map (read_net st1) ps = map Some ms" using ns(3) by simp
  moreover have "list_all (net_below (next_free st1) st1) ps"
    using ps g by (auto simp: list_all_iff intro: net_below_same net_below_mono)
  ultimately obtain qs st' where c: "clone_loop ps st1 = Some (qs, st')" "grows st1 st'"
    "map (read_net st') qs = map Some ms" "list_all (net_below (next_free st') st') qs"
    using Cons.IH by blast
  have g': "same_below (next_free st1) st1 st'" "next_free st1 \<le> next_free st'"
    using c(2) by (simp_all add: grows_def)
  have "read_net st' (Some q) = Some n" "net_below (next_free st') st' (Some q)"
    using 1 read_net_below [OF g'(1)] net_below_mono [OF net_below_same [OF g'(1)] g'(2)] by simp_all
  with c q 1 ns show ?case by (auto intro: grows_trans)
qed

lemma clone_list_reads:
  assumes "read_list st a = Some (map Some ns)" "list_below (next_free st) st a"
  shows "\<exists>out st'. clone_list a st = Some (out, st') \<and> read_list st' out = Some (map Some ns)"
proof -
  obtain ps where ps: "ptr_arrays st a = Some ps" "map (read_net st) ps = map Some ns"
    using assms(1) by (auto simp: read_list_def)
  have "list_all (net_below (next_free st) st) ps" using assms(2) ps(1) by (simp add: list_below_def)
  from clone_loop_reads [OF ps(2) this] obtain qs st1 where c: "clone_loop ps st = Some (qs, st1)"
    "map (read_net st1) qs = map Some ns" by blast
  have "read_bytes (st1\<lparr>ptr_arrays := x, next_free := y\<rparr>) = read_bytes st1" for x y
    by (rule ext) (simp add: read_bytes_def split: option.split)
  then have "read_net (st1\<lparr>ptr_arrays := x, next_free := y\<rparr>) = read_net st1" for x y
    by (intro ext) (simp add: read_net_def split: option.split)
  with c ps(1) show ?thesis by (simp add: clone_list_def read_list_def)
qed

definition package_ok :: "package_lists \<Rightarrow> net_store \<Rightarrow> bool" where
  "package_ok pk st \<longleftrightarrow> list_below (next_free st) st (private_list pk)
     \<and> list_below (next_free st) st (metadata_list pk)
     \<and> (\<forall>a\<ge>next_free st. net_objects st a = None \<and> ptr_arrays st a = None)"

definition store_start :: "package_lists \<Rightarrow> net_store \<Rightarrow> net_store \<times> nat set \<Rightarrow> bool" where
  "store_start pk st0 s \<longleftrightarrow> s = (st0, {}) \<and> package_ok pk st0"

definition store_ok :: "package_lists \<Rightarrow> net_store \<Rightarrow> net_store \<times> nat set \<Rightarrow> bool" where
  "store_ok pk st0 s \<longleftrightarrow> package_ok pk st0 \<and> apart (next_free st0) st0 (fst s)
     \<and> (\<forall>out\<in>snd s. next_free st0 \<le> out)"

lemma store_trans_ok: "store_trans pk s s' \<Longrightarrow> store_ok pk st0 s \<Longrightarrow> store_ok pk st0 s'"
proof (induction rule: store_trans.induct)
  case (call_private st out st' outs)
  then have "apart (next_free st0) st st' \<and> next_free st0 \<le> out"
    using clone_list_apart [of "private_list pk" st out st' "next_free st0"]
    by (simp add: get_private_ip_nets_def store_ok_def apart_def)
  with call_private.prems show ?case by (auto simp: store_ok_def intro: apart_trans)
next
  case (call_metadata st out st' outs)
  then have "apart (next_free st0) st st' \<and> next_free st0 \<le> out"
    using clone_list_apart [of "metadata_list pk" st out st' "next_free st0"]
    by (simp add: get_metadata_ip_nets_def store_ok_def apart_def)
  with call_metadata.prems show ?case by (auto simp: store_ok_def intro: apart_trans)
next
  case (caller_writes out outs st w)
  then have "apart (next_free st0) st (caller_step out w st)"
    by (intro caller_step_apart) (auto simp: store_ok_def apart_def)
  with caller_writes.prems show ?case by (auto simp: store_ok_def intro: apart_trans)
qed

lemma store_start_ok: "store_start pk st0 s \<Longrightarrow> store_ok pk st0 s"
  by (auto simp: store_start_def store_ok_def package_ok_def apart_def caller_side_def)

interpretation cl: invariant_system "store_start pk st0" "store_trans pk" "store_ok pk st0" for pk st0
  by unfold_locales (blast intro: store_start_ok, blast intro: store_trans_ok)

section \<open>Properties\<close>

text \<open>
  C19: Whatever callers write through the lists \<open>PrivateIPNets\<close> and
  \<open>MetadataIPNets\<close> gave them, in any order with further calls, the package's own
  lists keep their blocks and every later copy has them.
\<close>

theorem callers_cannot_change_blocklists:
  assumes "reachable (store_start pk st0) (store_trans pk) (st, outs)"
    and "read_list st0 (private_list pk) = Some (map Some private_ip_nets)"
    and "read_list st0 (metadata_list pk) = Some (map Some metadata_ip_nets)"
  shows "read_list st (private_list pk) = Some (map Some private_ip_nets)
    \<and> read_list st (metadata_list pk) = Some (map Some metadata_ip_nets)
    \<and> (\<exists>out st'. get_private_ip_nets pk st = Some (out, st')
         \<and> read_list st' out = Some (map Some private_ip_nets))
    \<and> (\<exists>out st'. get_metadata_ip_nets pk st = Some (out, st')
         \<and> read_list st' out = Some (map Some metadata_ip_nets))"
proof -
  let ?b = "next_free st0"
  have i: "package_ok pk st0" "same_below ?b st0 st" "?b \<le> next_free st"
    using cl.inv_reachable [OF assms(1)] by (simp_all add: store_ok_def apart_def caller_side_def)
  have l: "read_list st a = read_list st0 a \<and> list_below (next_free st) st a" if "list_below ?b st0 a" for a
    using read_list_below [OF i(2) that] list_below_same [OF i(2) that] i(3)
    by (auto simp: list_below_def list_all_iff split: option.splits intro: net_below_mono)
  have p: "list_below ?b st0 (private_list pk)" "list_below ?b st0 (metadata_list pk)"
    using i(1) by (simp_all add: package_ok_def)
  show ?thesis
    using l [OF p(1)] l [OF p(2)] assms(2,3) clone_list_reads [of st "private_list pk" private_ip_nets]
      clone_list_reads [of st "metadata_list pk" metadata_ip_nets]
    by (simp add: get_private_ip_nets_def get_metadata_ip_nets_def)
qed

text \<open>
  A store with the package's lists, and a caller that overwrites everything it was given.
\<close>

fun put_nets :: "ipnet list \<Rightarrow> net_store \<Rightarrow> nat option list \<times> net_store" where
  "put_nets [] st = ([], st)"
| "put_nets (n # ns) st =
     (case new_net (net_ip n) (net_mask n) st of
        (q, st1) \<Rightarrow> (case put_nets ns st1 of (qs, st2) \<Rightarrow> (Some q # qs, st2)))"

definition put_list :: "ipnet list \<Rightarrow> net_store \<Rightarrow> nat \<times> net_store" where
  "put_list ns st =
     (case put_nets ns st of
        (qs, st') \<Rightarrow> (next_free st',
          st'\<lparr>ptr_arrays := (ptr_arrays st')(next_free st' \<mapsto> qs), next_free := next_free st' + 1\<rparr>))"

lemma list_below_mono: "list_below b st a \<Longrightarrow> b \<le> c \<Longrightarrow> list_below c st a"
  by (auto simp: list_below_def list_all_iff split: option.splits intro: net_below_mono)

lemma read_set_elem:
  "read_list (caller_step out (SetElem i None) st) out = map_option (\<lambda>ns. ns[i := None]) (read_list st out)"
proof (cases "ptr_arrays st out")
  case (Some ps)
  have "read_bytes (st\<lparr>ptr_arrays := x\<rparr>) = read_bytes st" for x
    by (rule ext) (simp add: read_bytes_def split: option.split)
  then have "read_net (st\<lparr>ptr_arrays := x\<rparr>) = read_net st" for x
    by (intro ext) (simp add: read_net_def split: option.split)
  moreover have "read_net st None = None" by (simp add: read_net_def)
  ultimately show ?thesis using Some by (simp add: set_elem_def read_list_def map_update)
qed (simp add: set_elem_def read_list_def)

definition unused_above :: "net_store \<Rightarrow> bool" where
  "unused_above st \<longleftrightarrow> (\<forall>a\<ge>next_free st. net_objects st a = None \<and> ptr_arrays st a = None)"

lemma new_net_unused: "new_net ip bs st = (q, st') \<Longrightarrow> unused_above st \<Longrightarrow> unused_above st'"
  by (auto simp: new_net_def append_nil_def unused_above_def split: if_splits)

lemma put_nets_ok:
  "put_nets ns st = (qs, st') \<Longrightarrow> unused_above st \<Longrightarrow>
     grows st st' \<and> unused_above st' \<and> map (read_net st') qs = map Some ns
     \<and> list_all (net_below (next_free st') st') qs"
proof (induction ns arbitrary: st qs)
  case (Cons n ns)
  obtain q st1 where q: "new_net (net_ip n) (net_mask n) st = (q, st1)" by fastforce
  obtain qs' where c: "put_nets ns st1 = (qs', st')" "qs = Some q # qs'"
    using Cons.prems(1) q by (auto split: prod.splits)
  note 1 = new_net_reads [OF q]
  note ih = Cons.IH [OF c(1) new_net_unused [OF q Cons.prems(2)]]
  then have g: "same_below (next_free st1) st1 st'" "next_free st1 \<le> next_free st'"
    by (simp_all add: grows_def)
  have "read_net st' (Some q) = Some n" "net_below (next_free st') st' (Some q)"
    using 1 read_net_below [OF g(1)] net_below_mono [OF net_below_same [OF g(1)] g(2)] by simp_all
  with ih 1 show ?case by (auto simp: c(2) intro: grows_trans)
qed (simp add: grows_def)

lemma put_list_ok:
  assumes "put_list ns st = (a, st')" "unused_above st"
  shows "grows st st' \<and> unused_above st' \<and> read_list st' a = Some (map Some ns)
    \<and> list_below (next_free st') st' a"
proof -
  obtain qs st1 where q: "put_nets ns st = (qs, st1)" by fastforce
  note 1 = put_nets_ok [OF q assms(2)]
  have a: "a = next_free st1"
    "st' = st1\<lparr>ptr_arrays := (ptr_arrays st1)(next_free st1 \<mapsto> qs), next_free := next_free st1 + 1\<rparr>"
    using assms(1) unfolding put_list_def q by auto
  have g: "same_below (next_free st1) st1 st'" by (simp add: a same_below_def)
  have "map (read_net st') qs = map (read_net st1) qs"
    by (rule map_cong [OF refl]) (use 1 read_net_below [OF g] in \<open>simp add: list_all_iff\<close>)
  moreover have "net_below (next_free st') st' q" if "net_below (next_free st1) st1 q" for q
    by (rule net_below_mono [OF net_below_same [OF g that]]) (simp add: a)
  then have "list_all (net_below (next_free st') st') qs" using 1 by (simp add: list_all_iff)
  moreover have "grows st st'" using 1 g by (auto simp: grows_def a(2) same_below_def)
  ultimately show ?thesis
    using 1 by (auto simp: a read_list_def list_below_def unused_above_def)
qed

definition empty_store :: net_store where
  "empty_store = \<lparr>byte_arrays = Map.empty, net_objects = Map.empty, ptr_arrays = Map.empty, next_free = 0\<rparr>"

definition package_store :: "package_lists \<times> net_store" where
  "package_store =
     (case put_list private_ip_nets empty_store of
        (a, st) \<Rightarrow> (case put_list metadata_ip_nets st of
          (c, st') \<Rightarrow> (\<lparr>private_list = a, metadata_list = c\<rparr>, st')))"

lemma package_store_ok:
  assumes "package_store = (pk, st)"
  shows "package_ok pk st" "read_list st (private_list pk) = Some (map Some private_ip_nets)"
    "read_list st (metadata_list pk) = Some (map Some metadata_ip_nets)"
proof -
  obtain a st1 where 1: "put_list private_ip_nets empty_store = (a, st1)" by fastforce
  obtain c where 2: "put_list metadata_ip_nets st1 = (c, st)" "pk = \<lparr>private_list = a, metadata_list = c\<rparr>"
    using assms 1 by (auto simp: package_store_def split: prod.splits)
  have "unused_above empty_store" by (simp add: unused_above_def empty_store_def)
  note p = put_list_ok [OF 1 this]
  then have "unused_above st1" by blast
  note m = put_list_ok [OF 2(1) this]
  have g: "same_below (next_free st1) st1 st" "next_free st1 \<le> next_free st"
    using m by (simp_all add: grows_def)
  have "list_below (next_free st) st a"
    using list_below_mono [OF list_below_same [OF g(1)] g(2)] p by blast
  then show "package_ok pk st" using m by (simp add: package_ok_def unused_above_def 2(2))
  show "read_list st (private_list pk) = Some (map Some private_ip_nets)"
    "read_list st (metadata_list pk) = Some (map Some metadata_ip_nets)"
    using p m read_list_below [OF g(1)] by (simp_all add: 2(2))
qed

theorem callers_cannot_change_blocklists_witness:
  "case package_store of
     (pk, st0) \<Rightarrow>
       (case get_private_ip_nets pk st0 of
          None \<Rightarrow> False
        | Some (out, st) \<Rightarrow>
            read_list (caller_step out (SetElem 0 None) st) out \<noteq> read_list st out
            \<and> read_list (caller_step out (SetElem 0 None) st) (private_list pk) =
                Some (map Some private_ip_nets))"
proof -
  obtain pk st0 where p: "package_store = (pk, st0)" by fastforce
  note ok = package_store_ok [OF p]
  have r0: "reachable (store_start pk st0) (store_trans pk) (st0, {})"
    using ok(1) by (auto simp: store_start_def intro: reach_start)
  from callers_cannot_change_blocklists [OF r0 ok(2,3)] obtain out st where
    g: "get_private_ip_nets pk st0 = Some (out, st)" "read_list st out = Some (map Some private_ip_nets)"
    by blast
  from reach_step [OF r0 call_private [OF g(1)]]
  have "reachable (store_start pk st0) (store_trans pk) (st, {out})" .
  from reach_step [OF this caller_writes, of out "SetElem 0 None"]
  have "reachable (store_start pk st0) (store_trans pk) (caller_step out (SetElem 0 None) st, {out})"
    by simp
  from callers_cannot_change_blocklists [OF this ok(2,3)]
  have "read_list (caller_step out (SetElem 0 None) st) (private_list pk) = Some (map Some private_ip_nets)"
    by blast
  moreover have "read_list (caller_step out (SetElem 0 None) st) out \<noteq> read_list st out"
  proof -
    have "private_ip_nets \<noteq> []" by code_simp
    then have "(map Some private_ip_nets)[0 := None] \<noteq> map Some private_ip_nets"
      by (simp add: list_update_same_conv)
    then show ?thesis unfolding read_set_elem g(2) by simp
  qed
  ultimately show ?thesis unfolding p by (simp only: g(1) prod.case option.case simp_thms)
qed

end
