(* ===== verification/Spec2Isabelle.thy ===== *)
theory Spec2Isabelle
  imports AppConfig ClientCache SharedCache BlocklistCopies
begin

text \<open>
  A model of \<open>httpc\<close>, a Go library for an HTTP client that refuses to reach private
  addresses, with retries, a circuit breaker, transparent gzip, metrics and a response cache.

  \<^bold>\<open>The program and its parts.\<close> A request enters at \<open>Client.Do\<close> (client.go), is
  judged by the IP policy (ssrf.go) and the circuit breaker (circuitbreaker.go), and goes through
  hooks to the retrying client, which calls a stack of transports: the cache (filecache.go,
  memorycache.go), gzip (compression.go), metrics (metrics_transport.go) and, innermost, a transport
  whose dial hooks judge every connection. \<open>NewClient\<close> and \<open>NewClientFromAppConfig\<close>
  (appconfig.go, defaults.go) build all this from a configuration.

  \<^bold>\<open>The theories and the code.\<close>
  \<^item> Prelude, GoErrors, GoStrings, GoRegexp, GoNet, GoUrl, HttpTransport: what the code uses of Go's
    language and standard library. Errors are trees with the dynamic type of each node and what it
    wraps; an IP is its list of bytes; regular expressions are matched by derivatives, which is
    proved against their languages. Every call that can fail returns an error value, every panic is
    a value of its own.
  \<^item> IPPolicy is ssrf.go up to the checks, one definition per function and under its name.
    PolicySpec says which addresses are reserved, which reach a metadata endpoint and which a policy
    permits, by their octets; PolicyProps and UrlChecks prove that \<open>CheckIP\<close>,
    \<open>ValidateURL\<close>, \<open>ValidateURLResolved\<close> and \<open>ControlFunc\<close> decide these sets.
    Fingerprint has the digest of a policy, with the proof that its text determines the verdicts.
    BlocklistCopies puts the blocklists and the copies handed to callers in an explicit store.
  \<^item> DialPolicy and TargetCache are the enforcement below the client (client.go): the proxy and dial
    hooks \<open>policyTransport\<close> installs in its clone of a transport, the check of the peer, the URL
    fallback, and the verdict cache of proxied targets, as a transition system of lock-free reads and
    locked admissions. \<open>transport_connect\<close> is how \<open>http.Transport\<close> calls the hooks of
    whatever clone it is given.
  \<^item> CircuitBreaker has every operation of circuitbreaker.go with its critical section and its gauge
    call as separate steps, and an abstract circuit per host that it refines.
  \<^item> ClientDo is \<open>Do\<close>, the retry after a 401, the methods built on them and the redirect
    check. Readers and Compression have the two body readers and the gzip transport,
    MetricsTransport the metrics layer with path templates and error classes, Retry the retry
    policies with 64-bit durations.
  \<^item> CacheSpec states the contract of a cache backend as a locale. FileCache, which interprets it,
    has every operation of filecache.go with a fault for every system call. SharedCache splits its
    \<open>Get\<close>, \<open>Set\<close> and \<open>Del\<close> at every access to what goroutines share.
    MemoryCache counts over any backend.
  \<^item> Defaults, ClientSetup, ClientCache and AppConfig are the constants and paths, \<open>NewClient\<close>
    with its configuration, the cache methods of the client, and configuration files.
  \<^item> This theory holds the properties across components: clients with different policies do not see
    each other's cache entries, and a client made from a file connects only where the file allows.

  \<^bold>\<open>What the lemmas show.\<close> The policy theories characterise each check exactly, in both
  directions. The state machines have an invariant for every reachable state, through the locale
  \<open>invariant_system\<close>: the breaker, the verdict cache, the shared file cache and the store of
  blocklists. The readers are proved to respect their limits for every underlying reader that
  respects its buffer, through the locales \<open>io_reader\<close> and \<open>quota_reader\<close>. The file cache
  is proved atomic under every fault, a refinement of a map without faults, and free of torn entries
  under every interleaving; a call on its own is the same as its steps. Some theorems show what the
  code does not achieve: gauges that go stale, half-open slots that are never returned, expired
  entries that are answered under a race, and sizes that drift. A response hook that takes the body
  of a 401 away makes \<open>Do\<close> panic, which the model keeps as a flag of the client's state.

  \<^bold>\<open>Parameters.\<close> Code outside the repository is an argument of the definitions:
  \<open>url.Parse\<close>, the resolvers, \<open>net.Dialer\<close>, the retrying client with its default policy,
  the caching library, SHA-256, \<open>gzip.Reader\<close>, \<open>time.ParseDuration\<close>, the hooks of the
  caller, and whatever transport stands in for one that cannot be cloned. Where a property needs to
  know something of one, it is a hypothesis: the dialer asks its \<open>Control\<close> hook about every
  TCP address before it connects, and then connects to that address, or, for an unspecified one, to
  the local system, whose addresses are a parameter; a reader returns at most the length of the
  buffer; digests do not collide on the texts at hand and are long enough; the name of a temp file is
  none of an entry, and no open temp file has it.

  \<^bold>\<open>The limits of the guarantees.\<close> An IP policy has no say on Unix sockets, which only a
  caller's own dialer can choose. A policy with an exception for 0.0.0.0 or the unspecified IPv6
  address lets the package's dialer reach the local system through them. The check of a URL's text
  lets spellings of addresses pass that Go reads as names, such as 127.1; the dial hooks judge what
  they resolve to. The size the file cache tracks is exact only for calls that do not overlap, while
  nothing expires and no look-up or removal fails.

  \<^bold>\<open>Integers and bounds.\<close> Times and durations are integers in nanoseconds, except in Retry,
  where they are 64-bit words because products may wrap; hit counters are 64-bit words. Nothing runs
  on fuel: loops are structural recursions, and following redirects is bounded by the code's own
  limit. A task of SharedCache takes at most nine steps, by its rank.

  \<^bold>\<open>Not modelled.\<close> Log messages, apart from the adapter of the retrying client's logger;
  spans of OpenTelemetry; the conversions of counters and rates to floating point; the permissions
  of files and directories; the dialer's two timeouts; contexts other than by the errors they
  report at the places where the code asks; the path of the cache directory, to which the names of
  entries are relative; the pool of idle connections, which holds connections made as modelled. The
  forwarding methods \<open>Close\<close> of the body readers
  and \<open>CloseIdleConnections\<close> are left out. The retry loop itself belongs to another library.
\<close>

section \<open>Properties across components\<close>

text \<open>
  What a lookup finds depends only on the file of its key, and a store changes only the file of its
  own key.
\<close>

lemma cache_get_local:
  assumes "map_of d (key_to_filename sha fc k) = map_of (fc_disk fc) (key_to_filename sha fc k)"
  shows "fst (cache_get sha env k (fc\<lparr>fc_disk := d\<rparr>)) = fst (cache_get sha env k fc)"
proof -
  have "os_read_file env (key_to_filename sha fc k) d =
      os_read_file env (key_to_filename sha fc k) (fc_disk fc)"
    "os_stat env (key_to_filename sha fc k) d = os_stat env (key_to_filename sha fc k) (fc_disk fc)"
    using assms by (simp_all add: os_read_file_def os_stat_def)
  then show ?thesis
    by (auto simp: cache_get_def Let_def miss_def hit_def split: option.split sum.split)
qed

lemma different_prefix:
  assumes "fingerprint sha (Some p) \<noteq> fingerprint sha (Some q)" and "\<forall>t. 16 \<le> length (sha t)"
  shows "x @ ''-'' @ fingerprint sha (Some p) @ k \<noteq> x @ ''-'' @ fingerprint sha (Some q) @ j"
proof -
  have "length (fingerprint sha r) = 16" for r
    using assms(2) [rule_format, of "fingerprint_text r"] by (simp add: fingerprint_def)
  with assms(1) show ?thesis by (auto simp: append_eq_append_conv)
qed

text \<open>
  C2: Two clients that share a cache directory and a \<open>CacheKeyPrefix\<close> and differ in
  what addresses they may reach never see each other's entries: whatever one stores leaves every
  lookup of the other unchanged, provided digests are long enough and collide neither on the two
  fingerprints nor on the two keys, no resolver's identity contains a semicolon, and the temp file
  has a name no file and no entry has.
\<close>

theorem cache_isolation:
  assumes "fc_key_prefix fc1 = cache_prefix out c1 (Some p)" and "fc_key_prefix fc2 = cache_prefix out c2 (Some q)"
    and "cache_key_prefix c1 = cache_key_prefix c2" and "fc_disk fc1 = fc_disk fc2"
    and "CHR '';'' \<notin> set (resolver_identity (policy_resolver p))"
    and "CHR '';'' \<notin> set (resolver_identity (policy_resolver q))"
    and "(check_ip (Some p) ip = None) \<noteq> (check_ip (Some q) ip = None)"
    and "\<forall>t. 16 \<le> length (sha_hex out t)"
    and "fingerprint (sha_hex out) (Some p) = fingerprint (sha_hex out) (Some q) \<longrightarrow>
      fingerprint_text (Some p) = fingerprint_text (Some q)"
    and "key_to_filename (sha_hex out) fc1 key = key_to_filename (sha_hex out) fc2 k \<longrightarrow>
      fc_key_prefix fc1 @ key = fc_key_prefix fc2 @ k"
    and "tmp_name env \<notin> names (fc_disk fc1)" and "tmp_name env \<notin> range (sha_hex out)"
    and "cache_set (sha_hex out) env key data fc1 = (e, fc1')"
  shows "fst (cache_get (sha_hex out) env' k (fc2\<lparr>fc_disk := fc_disk fc1'\<rparr>)) =
    fst (cache_get (sha_hex out) env' k fc2)"
proof (rule cache_get_local)
  have "fingerprint (sha_hex out) (Some p) \<noteq> fingerprint (sha_hex out) (Some q)"
    using assms(5-7,9) same_text_same_policy [of p q ip] by blast
  from different_prefix [OF this assms(8), of "cache_key_prefix c1" key k]
  have ne: "key_to_filename (sha_hex out) fc1 key \<noteq> key_to_filename (sha_hex out) fc2 k"
    using assms(1-3,10) by (auto simp: cache_prefix_def)
  have t: "tmp_name env \<noteq> key_to_filename (sha_hex out) fc key'" for fc key'
    using assms(12) by (auto simp: key_to_filename_def)
  from cache_set_disk [OF assms(13,11) refl t, of "key_to_filename (sha_hex out) fc2 k"] ne t assms(4)
  show "map_of (fc_disk fc1') (key_to_filename (sha_hex out) fc2 k) =
      map_of (fc_disk fc2) (key_to_filename (sha_hex out) fc2 k)"
    by metis
qed

text \<open>
  Examples: digests that append to the text, one empty directory shared by two clients with the
  default prefix, one of which may reach private addresses, and the dialer of the dial-time theory.
\<close>

definition example_outside :: "(unit, unit, unit) outside" where
  "example_outside =
     \<lparr>memory_base = (\<lambda>_ _. ()), expand_dir = Inr, make_dir = (\<lambda>_. Inr []),
      setup_env = no_faults 0 ''.tmp'', default_dir = ''/tmp'',
      sha_hex = (\<lambda>t. t @ replicate 16 (CHR ''x'')),
      url_parse = (\<lambda>s. Inr (plain_url s)), dns_lookup = (\<lambda>_. Inr []),
      net_dialer = example_dialer,
      default_transport = HttpTransport example_transport, retry_transport = None,
      default_retry_policy = (\<lambda>r e w. (((False, None)), w))\<rparr>"

definition example_client_cache :: "ip_policy \<Rightarrow> file_cache" where
  "example_client_cache p =
     (example_cache 5)\<lparr>fc_disk := [],
       fc_key_prefix := cache_prefix example_outside (default_config ''/tmp'' :: (unit, unit, unit) client_config) (Some p)\<rparr>"

theorem cache_isolation_witness:
  "fst (cache_get (sha_hex example_outside) (no_faults 21 ''.tmp'') ''http://10.0.0.1/''
     ((example_client_cache default_ip_policy)\<lparr>fc_disk := fc_disk (snd (cache_set (sha_hex example_outside)
       (no_faults 20 ''.tmp'') ''http://10.0.0.1/'' ''secret'' (example_client_cache allow_all_private_ips)))\<rparr>)) =
   (None, None)"
proof -
  let ?o = example_outside and ?p = allow_all_private_ips and ?q = default_ip_policy
  let ?c = "default_config ''/tmp'' :: (unit, unit, unit) client_config"
  let ?k = "''http://10.0.0.1/''"
  let ?s = "cache_set (sha_hex ?o) (no_faults 20 ''.tmp'') ?k ''secret'' (example_client_cache ?p)"
  have sha: "sha_hex ?o t = t @ replicate 16 (CHR ''x'')" for t by (simp add: example_outside_def)
  have disk: "fc_disk (example_client_cache r) = []" for r by (simp add: example_client_cache_def)
  have pre: "fc_key_prefix (example_client_cache r) = cache_prefix ?o ?c (Some r)" for r
    by (simp add: example_client_cache_def)
  have "fst (cache_get (sha_hex ?o) (no_faults 21 ''.tmp'') ?k
      ((example_client_cache ?q)\<lparr>fc_disk := fc_disk (snd ?s)\<rparr>)) =
    fst (cache_get (sha_hex ?o) (no_faults 21 ''.tmp'') ?k (example_client_cache ?q))"
  proof (rule cache_isolation [OF pre pre refl, where ip = "[10, 0, 0, 1]" and e = "fst ?s"])
    show "(check_ip (Some ?p) [10, 0, 0, 1] = None) \<noteq> (check_ip (Some ?q) [10, 0, 0, 1] = None)"
      by code_simp
    show "fingerprint (sha_hex ?o) (Some ?p) = fingerprint (sha_hex ?o) (Some ?q) \<longrightarrow>
        fingerprint_text (Some ?p) = fingerprint_text (Some ?q)" by code_simp
    show "?s = (fst ?s, snd ?s)" by simp
    show "tmp_name (no_faults 20 ''.tmp'') \<notin> range (sha_hex ?o)"
    proof
      assume "tmp_name (no_faults 20 ''.tmp'') \<in> range (sha_hex ?o)"
      then obtain t where "''.tmp'' = t @ replicate 16 (CHR ''x'')" by (auto simp: no_faults_def sha)
      then have "length ''.tmp'' = length (t @ replicate 16 (CHR ''x''))" by (rule arg_cong)
      then show False by simp
    qed
    show "CHR '';'' \<notin> set (resolver_identity (policy_resolver ?p))"
      "CHR '';'' \<notin> set (resolver_identity (policy_resolver ?q))" by code_simp+
  qed (simp_all add: sha disk names_def key_to_filename_def)
  moreover have "fst (cache_get (sha_hex ?o) (no_faults 21 ''.tmp'') ?k (example_client_cache ?q)) = (None, None)"
    by (simp add: cache_get_def disk os_stat_def os_read_file_def no_faults_def miss_def Let_def)
  ultimately show ?thesis by simp
qed

text \<open>The addresses a configuration file lets a client connect to, at most.\<close>

definition file_permits :: "app_config \<Rightarrow> ip \<Rightarrow> bool" where
  "file_permits a ip \<longleftrightarrow> \<not> metadata_target ip
     \<and> (if (case a_allowed_private_cidrs a of
              Some cs \<Rightarrow> cs = []
            | None \<Rightarrow> a_allow_private_ips a \<noteq> Some True)
        then check_ip None ip = None else True)"

lemma permitted_file_permits:
  assumes "client_config_from parse dir (Some a) sink = Inr c" and "permitted (config_ip_policy c) ip"
  shows "file_permits a ip"
proof -
  from client_config_from_verdict [OF assms(1), of ip] assms(2) obtain q where
    "chosen_policy a = Inr q" "check_ip (Some q) ip = None"
    by (auto simp: check_ip_permitted effective_policy_def)
  moreover have "\<not> metadata_target ip" using assms(2) by (simp add: permitted_exact)
  ultimately show ?thesis
    using check_ip_default_policy [of ip]
    by (auto simp: file_permits_def chosen_policy_def new_ip_policy_def default_ip_policy_def
        split: option.splits if_splits)
qed

lemma own_file_permits:
  assumes c: "client_config_from parse dir (Some a) sink = Inr c"
    and "unspecified ip0" "permitted (config_ip_policy c) ip0" and "\<not> metadata_target ip"
  shows "file_permits a ip"
proof -
  have "file_permits a ip0" by (rule permitted_file_permits [OF c assms(3)])
  with default_not_unspecified [OF assms(2)] assms(4) show ?thesis
    by (auto simp: file_permits_def check_ip_permitted effective_policy_def split: option.splits if_splits)
qed

text \<open>
  C1: A client built from a configuration file, on a machine that is not itself a metadata
  endpoint, never ends up connected, without a proxy, to a metadata address, nor, if the file
  allows no private addresses, to any address outside the public ranges; a Unix socket is reached
  only through a dialer the application put into the default transport. With a proxy the target
  was validated. Where the default transport cannot be hooked, the target's literal address, or
  every address its name resolves to, is such an address.
\<close>

theorem app_config_connections:
  assumes "new_client_from_app_config parse out (Some a) sink = Inr hc"
    and "dialer_honours_control own (net_dialer out)"
    and "\<forall>ip. own ip \<longrightarrow> \<not> metadata_target ip"
    and "client_connect out other addr_of hc req now cache = ((Some cn, None), via, cache')"
  shows "case default_transport out of
      HttpTransport t \<Rightarrow>
        (case via of
           Some proxy_url \<Rightarrow>
             fst (validate_proxied_target (url_parse out) (dns_lookup out)
               (config_ip_policy (hc_config hc)) req now cache) = None
         | None \<Rightarrow>
             (case remote_addr cn of
                UnixAddr _ \<Rightarrow> caller_dial t \<noteq> None \<or> caller_dial_tls t \<noteq> None
              | _ \<Rightarrow> (case remote_ip cn of None \<Rightarrow> False | Some ip \<Rightarrow> file_permits a ip)))
    | OtherTripper _ \<Rightarrow>
        (case url_parse out (snd req) of
           Inl _ \<Rightarrow> False
         | Inr u \<Rightarrow>
             (case parse_ip (strip_zone (host_text u)) of
                Some ip \<Rightarrow> file_permits a ip
              | None \<Rightarrow>
                  (case lookup_of (dns_lookup out) (Some (config_ip_policy (hc_config hc)))
                      (lower_host (hostname u)) of
                     Inl _ \<Rightarrow> False
                   | Inr ips \<Rightarrow> ips \<noteq> [] \<and> list_all (file_permits a) ips)))"
proof -
  obtain c where c: "client_config_from parse (default_dir out) (Some a) sink = Inr c"
    and hc: "hc = new_client out (Some c)" "config_of out (Some c) = c" "hc_config hc = c"
    using assms(1) by (auto simp: new_client_from_app_config_def new_client_fields config_of_def split: sum.splits)
  have "cfg_transport c = None"
    using app_config_ok [OF c] by (simp add: config_ok_def)
  then have g: "case default_transport out of
      HttpTransport t \<Rightarrow>
        (case via of
           Some _ \<Rightarrow> fst (validate_proxied_target (url_parse out) (dns_lookup out) (config_ip_policy c)
             req now cache) = None
         | None \<Rightarrow> peer_guarded own t (config_ip_policy c) cn)
    | OtherTripper _ \<Rightarrow>
        validate_url_resolved (url_parse out) (dns_lookup out) (Some (config_ip_policy c)) (snd req) = None"
    using client_connect_guarded [OF _ assms(2), of "Some c" other addr_of req now cache cn via cache'] assms(4) hc
    by simp
  note permits = permitted_file_permits [OF c]
  have peer: "case remote_addr cn of
      UnixAddr _ \<Rightarrow> caller_dial t \<noteq> None \<or> caller_dial_tls t \<noteq> None
    | _ \<Rightarrow> (case remote_ip cn of None \<Rightarrow> False | Some ip \<Rightarrow> file_permits a ip)"
    if "peer_guarded own t (config_ip_policy c) cn" for t
    using that permits own_file_permits [OF c] assms(3)
    by (auto simp: peer_guarded_def split: net_addr.splits option.splits)
  show ?thesis
  proof (cases "default_transport out")
    case (HttpTransport t)
    with g peer hc(3) show ?thesis by (cases via) simp_all
  next
    case (OtherTripper b)
    with g hc(3) permits show ?thesis
      by (auto simp: validate_url_resolved_iff effective_policy_def url_ok_def is_literal_def all_permitted_def
          list_all_iff split: sum.splits option.splits)
  qed
qed

theorem app_config_connections_witness: "file_permits empty_app_config (ipv4 93 184 216 34)"
proof -
  let ?r = "new_client_from_app_config (\<lambda>t. Inl (errorf t)) example_outside (Some empty_app_config) False
    :: go_err + (unit, unit, unit, unit) http_client"
  have "\<not> fails (example_from (Some empty_app_config))" by code_simp
  then obtain c :: "(unit, unit, unit) client_config"
    where c: "client_config_from (\<lambda>t. Inl (errorf t)) ''/tmp'' (Some empty_app_config) False = Inr c"
    by (cases "example_from (Some empty_app_config)") (auto simp: example_from_def)
  then have r: "?r = Inr (new_client example_outside (Some c))"
    by (simp add: new_client_from_app_config_def example_outside_def)
  obtain q where "chosen_policy empty_app_config = Inr q"
    "config_ip_policy c = q\<lparr>trust_proxy_resolution := (a_trust_proxy_resolution empty_app_config = Some True)\<rparr>"
    by (rule client_config_from_policy [OF c])
  then have p: "config_ip_policy c = default_ip_policy"
    by (auto simp: chosen_policy_def empty_app_config_def default_ip_policy_def)
  have "cfg_transport c = None" using app_config_ok [OF c] by (simp add: config_ok_def)
  then have run: "client_connect example_outside (\<lambda>_ _. (None, None)) url_host (new_client example_outside (Some c))
      (plain_url ''example.com:80'', ''example.com:80'') 0 empty_target_cache =
      ((Some example_conn, None), None, empty_target_cache)"
    using example_connect p
    by (simp add: client_connect_def new_client_innermost config_of_def new_base_transport_default
        example_outside_def)
  have "\<not> metadata_target (ipv4 127 0 0 1)" by code_simp
  then show ?thesis
    using app_config_connections [OF r _ _ run, of loopback_only] example_dialer_honours
    by (auto simp: example_outside_def example_transport_def example_conn_def remote_ip_def)
qed

end
